theory Spec2Isabelle
  imports Complex_Main "HOL-Library.Word"
begin

section \<open>JavaScript values and driver-native values\<close>

text \<open>
  The values that flow through \<^verbatim>\<open>Neo4jService\<close> (\<^verbatim>\<open>src/neo4j.service.ts\<close>) are
  JavaScript values: the plain ones (null, undefined, booleans, numbers, strings, arrays,
  objects) and the instances of the classes of \<^verbatim>\<open>neo4j-driver\<close> that a query result can
  hold (Integer, the temporal classes, Point, Node).

  \<^item> A number is \<open>Num r\<close> for a \<open>real\<close> \<open>r\<close>, or \<open>NaN\<close>; the infinities and the sign of
    zero are not represented.
  \<^item> A string is a \<open>string\<close>.
  \<^item> An object is the list of its own enumerable properties in insertion order; a property
    is read at its first entry. (JavaScript lists keys that look like array indices
    before the others; no statement below depends on the order of the keys.) Properties
    inherited from a prototype are not represented.
  \<^item> The driver's \<^verbatim>\<open>Integer\<close> is a 64-bit two's complement integer.
  \<^item> The temporal classes and \<^verbatim>\<open>Point\<close> carry the text that the driver's \<^verbatim>\<open>toString()\<close>
    gives for them (\<open>repr\<close>): that method belongs to the driver, not to this repository.
  \<^item> The model is a tree: two places never share one array or object.
\<close>

datatype temporal_kind = Date | DateTime | LocalTime | LocalDateTime | Time | Duration

datatype jsvalue =
    Null
  | Undefined
  | Bool bool
  | Num real
  | NaN
  | Str string
  | Integer (int_value: "64 word")
  | Temporal (kind: temporal_kind) (repr: string)
  | Point (srid: "64 word") (px: real) (py: real) (pz: "real option") (repr: string)
  | Node (identity: "64 word") (labels: "string list") (properties: "(string \<times> jsvalue) list")
  | Arr (elems: "jsvalue list")
  | Obj (entries: "(string \<times> jsvalue) list")

text \<open>
  What a \<^verbatim>\<open>throw\<close> carries: a \<^verbatim>\<open>TypeError\<close> of the JavaScript runtime, or a
  \<^verbatim>\<open>Neo4jError\<close> of the driver with its message.
\<close>

datatype js_error = TypeError | Neo4jError string

text \<open>The type predicates of the driver, \<^verbatim>\<open>Array.isArray\<close> and \<^verbatim>\<open>typeof v === 'object'\<close>.\<close>

definition isInt :: "jsvalue \<Rightarrow> bool" where
  "isInt v = (case v of Integer _ \<Rightarrow> True | _ \<Rightarrow> False)"

definition isTemporal :: "temporal_kind \<Rightarrow> jsvalue \<Rightarrow> bool" where
  "isTemporal k v = (case v of Temporal k' _ \<Rightarrow> k' = k | _ \<Rightarrow> False)"

abbreviation isDate :: "jsvalue \<Rightarrow> bool" where "isDate \<equiv> isTemporal Date"
abbreviation isDateTime :: "jsvalue \<Rightarrow> bool" where "isDateTime \<equiv> isTemporal DateTime"
abbreviation isLocalTime :: "jsvalue \<Rightarrow> bool" where "isLocalTime \<equiv> isTemporal LocalTime"
abbreviation isLocalDateTime :: "jsvalue \<Rightarrow> bool" where
  "isLocalDateTime \<equiv> isTemporal LocalDateTime"
abbreviation isTime :: "jsvalue \<Rightarrow> bool" where "isTime \<equiv> isTemporal Time"
abbreviation isDuration :: "jsvalue \<Rightarrow> bool" where "isDuration \<equiv> isTemporal Duration"

definition isPoint :: "jsvalue \<Rightarrow> bool" where
  "isPoint v = (case v of Point _ _ _ _ _ \<Rightarrow> True | _ \<Rightarrow> False)"

definition isNode :: "jsvalue \<Rightarrow> bool" where
  "isNode v = (case v of Node _ _ _ \<Rightarrow> True | _ \<Rightarrow> False)"

definition isArray :: "jsvalue \<Rightarrow> bool" where
  "isArray v = (case v of Arr _ \<Rightarrow> True | _ \<Rightarrow> False)"

definition typeof_object :: "jsvalue \<Rightarrow> bool" where
  "typeof_object v =
     (case v of Undefined \<Rightarrow> False | Bool _ \<Rightarrow> False | Num _ \<Rightarrow> False | NaN \<Rightarrow> False
      | Str _ \<Rightarrow> False | _ \<Rightarrow> True)"

text \<open>JavaScript truthiness (\<^verbatim>\<open>!data\<close>, \<^verbatim>\<open>a && b\<close>).\<close>

definition truthy :: "jsvalue \<Rightarrow> bool" where
  "truthy v =
     (case v of Null \<Rightarrow> False | Undefined \<Rightarrow> False | Bool b \<Rightarrow> b | Num r \<Rightarrow> r \<noteq> 0
      | NaN \<Rightarrow> False | Str s \<Rightarrow> s \<noteq> [] | _ \<Rightarrow> True)"

subsection \<open>Objects as property lists\<close>

definition obj_get :: "(string \<times> 'v) list \<Rightarrow> string \<Rightarrow> 'v option" where
  "obj_get kvs k = map_of kvs k"

text \<open>
  Writing an own property: an existing property keeps its place, a new one goes last.
\<close>

fun obj_set :: "(string \<times> 'v) list \<Rightarrow> string \<Rightarrow> 'v \<Rightarrow> (string \<times> 'v) list" where
  "obj_set [] k v = [(k, v)]"
| "obj_set ((k', v') # kvs) k v =
     (if k' = k then (k, v) # kvs else (k', v') # obj_set kvs k v)"

text \<open>
  The assignment \<^verbatim>\<open>obj[key] = v\<close> to an object made by \<^verbatim>\<open>{}\<close>. It writes the own property,
  with one exception: for the key \<^verbatim>\<open>__proto__\<close>, when the object has no own property of
  that name, the assignment runs the setter that \<^verbatim>\<open>Object.prototype\<close> has for it, and no own
  property is made. (The setter does nothing unless \<open>v\<close> is an object or null.)
\<close>

definition obj_assign :: "(string \<times> 'v) list \<Rightarrow> string \<Rightarrow> 'v \<Rightarrow> (string \<times> 'v) list" where
  "obj_assign kvs k v = (if k = ''__proto__'' \<and> obj_get kvs k = None then kvs else obj_set kvs k v)"

subsection \<open>The driver's Integer\<close>

text \<open>
  \<^verbatim>\<open>neo4j.integer.inSafeRange\<close> compares with \<^verbatim>\<open>Number.MIN_SAFE_INTEGER\<close> and
  \<^verbatim>\<open>Number.MAX_SAFE_INTEGER\<close>; \<^verbatim>\<open>toNumber()\<close> is exact there (outside that range the driver
  rounds to the nearest double, which \<open>convertValues\<close> never asks for);
  \<^verbatim>\<open>toString()\<close> writes the integer in decimal.
\<close>

definition MAX_SAFE_INTEGER :: int where
  "MAX_SAFE_INTEGER = 2 ^ 53 - 1"

definition inSafeRange :: "64 word \<Rightarrow> bool" where
  "inSafeRange i = (- MAX_SAFE_INTEGER \<le> sint i \<and> sint i \<le> MAX_SAFE_INTEGER)"

definition toNumber :: "64 word \<Rightarrow> real" where
  "toNumber i = real_of_int (sint i)"

definition digit_char :: "nat \<Rightarrow> char" where
  "digit_char d = ''0123456789'' ! d"

fun dec_nat :: "nat \<Rightarrow> string" where
  "dec_nat n = (if n < 10 then [digit_char n] else dec_nat (n div 10) @ [digit_char (n mod 10)])"

definition dec_int :: "int \<Rightarrow> string" where
  "dec_int i = (if i < 0 then CHR ''-'' # dec_nat (nat (- i)) else dec_nat (nat i))"

definition toString :: "64 word \<Rightarrow> string" where
  "toString i = dec_int (sint i)"

text \<open>Reading a decimal numeral back, to say what an exact representation is.\<close>

definition digit_value :: "char \<Rightarrow> nat" where
  "digit_value c = of_char c - 48"

definition is_digit :: "char \<Rightarrow> bool" where
  "is_digit c = (48 \<le> (of_char c :: nat) \<and> (of_char c :: nat) \<le> 57)"

definition nat_of_dec :: "string \<Rightarrow> nat" where
  "nat_of_dec s = foldl (\<lambda>a c. 10 * a + digit_value c) 0 s"

definition int_of_dec :: "string \<Rightarrow> int" where
  "int_of_dec s =
     (case s of c # ds \<Rightarrow> if c = CHR ''-'' then - int (nat_of_dec ds) else int (nat_of_dec s)
      | [] \<Rightarrow> 0)"

section \<open>The normalizer: \<^verbatim>\<open>convertValues\<close> and \<^verbatim>\<open>extractRecords\<close>\<close>

definition num_or_undefined :: "real option \<Rightarrow> jsvalue" where
  "num_or_undefined c = (case c of None \<Rightarrow> Undefined | Some r \<Rightarrow> Num r)"

lemma temporal_kind_all:
  "k = Date \<or> k = DateTime \<or> k = LocalTime \<or> k = LocalDateTime \<or> k = Time \<or> k = Duration"
  by (cases k) simp_all

lemma size_elems: "a \<in> set vs \<Longrightarrow> size a < Suc (size_list size vs)"
  by (induction vs) auto

lemma size_entries: "(k, a) \<in> set kvs \<Longrightarrow> size a < Suc (size_list (size_prod (\<lambda>_. 0) size) kvs)"
  by (induction kvs) auto

text \<open>
  \<^verbatim>\<open>convertValues\<close>, branch by branch in the order of the source. The in-place update of
  an object (\<^verbatim>\<open>value[key] = this.convertValues(value[key])\<close> for every own key) is the
  object with every property value converted.
\<close>

function convertValues :: "jsvalue \<Rightarrow> jsvalue" where
  "convertValues value =
    (if value = Null then value
     else if isInt value then
       (if inSafeRange (int_value value) then Num (toNumber (int_value value))
        else Str (toString (int_value value)))
     else if isDate value \<or> isDateTime value \<or> isLocalTime value \<or> isLocalDateTime value \<or>
             isTime value \<or> isDuration value \<or> isPoint value
       then Str (repr value)
     else if isPoint value then
       (if toNumber (srid value) = 4326 then
          Obj [(''longitude'', Num (py value)), (''latitude'', Num (px value))]
        else if toNumber (srid value) = 4979 then
          Obj [(''longitude'', Num (py value)), (''latitude'', Num (px value)),
               (''height'', num_or_undefined (pz value))]
        else convertValues (Obj [(''x'', Num (px value)), (''y'', Num (py value)),
               (''z'', num_or_undefined (pz value))]))
     else
       (let value = (if isNode value then Obj (properties value) else value) in
        if isArray value then Arr (map convertValues (elems value))
        else if typeof_object value then
          Obj (map (\<lambda>(key, v). (key, convertValues v)) (entries value))
        else value))"
  by pat_completeness auto
termination
proof (relation "measure size", goal_cases)
  case 1
  show ?case by simp
next
  case (2 v)
  then show ?case by simp
next
  case (3 v v' a)
  then show ?case
    by (cases v) (auto simp: isArray_def isNode_def dest: size_elems)
next
  case (4 v v' kv k a)
  then show ?case
    using temporal_kind_all [of "kind v"]
    by (cases v)
      (auto simp: isArray_def isNode_def isInt_def isPoint_def isTemporal_def typeof_object_def
        dest: size_entries)
qed

declare convertValues.simps [simp del]


text \<open>The equation of \<open>convertValues\<close> at each kind of value.\<close>

lemma convertValues_Null: "convertValues Null = Null"
  by (simp add: convertValues.simps)

lemma convertValues_Undefined: "convertValues Undefined = Undefined"
  by (simp add: convertValues.simps isInt_def isTemporal_def isPoint_def isNode_def isArray_def
      typeof_object_def)

lemma convertValues_Bool: "convertValues (Bool b) = Bool b"
  by (simp add: convertValues.simps isInt_def isTemporal_def isPoint_def isNode_def isArray_def
      typeof_object_def)

lemma convertValues_Num: "convertValues (Num r) = Num r"
  by (simp add: convertValues.simps isInt_def isTemporal_def isPoint_def isNode_def isArray_def
      typeof_object_def)

lemma convertValues_NaN: "convertValues NaN = NaN"
  by (simp add: convertValues.simps isInt_def isTemporal_def isPoint_def isNode_def isArray_def
      typeof_object_def)

lemma convertValues_Str: "convertValues (Str s) = Str s"
  by (simp add: convertValues.simps isInt_def isTemporal_def isPoint_def isNode_def isArray_def
      typeof_object_def)

lemma convertValues_Integer:
  "convertValues (Integer i) = (if inSafeRange i then Num (toNumber i) else Str (toString i))"
  by (simp add: convertValues.simps isInt_def)

lemma convertValues_Temporal: "convertValues (Temporal k s) = Str s"
  using temporal_kind_all [of k]
  by (auto simp add: convertValues.simps isInt_def isTemporal_def)

lemma convertValues_Point_text: "convertValues (Point c a b h s) = Str s"
  by (simp add: convertValues.simps isInt_def isPoint_def)

lemma convertValues_Arr: "convertValues (Arr vs) = Arr (map convertValues vs)"
  by (simp add: convertValues.simps [of "Arr vs"] isInt_def isTemporal_def isPoint_def
      isNode_def isArray_def)

lemma convertValues_Obj:
  "convertValues (Obj kvs) = Obj (map (\<lambda>(key, v). (key, convertValues v)) kvs)"
  by (simp add: convertValues.simps [of "Obj kvs"] isInt_def isTemporal_def isPoint_def
      isNode_def isArray_def typeof_object_def)

lemma convertValues_Node:
  "convertValues (Node i ls ps) = Obj (map (\<lambda>(key, v). (key, convertValues v)) ps)"
  by (simp add: convertValues.simps [of "Node i ls ps"] isInt_def isTemporal_def isPoint_def
      isNode_def isArray_def typeof_object_def)

lemmas convertValues_eqs =
  convertValues_Null convertValues_Undefined convertValues_Bool convertValues_Num
  convertValues_NaN convertValues_Str convertValues_Integer convertValues_Temporal convertValues_Point_text
  convertValues_Arr convertValues_Obj convertValues_Node


subsection \<open>\<^verbatim>\<open>extractRecords\<close>\<close>

text \<open>
  A driver \<^verbatim>\<open>Record\<close> is the list of its columns, each a key with its field, in the order
  of the \<^verbatim>\<open>RETURN\<close> clause. \<^verbatim>\<open>record.keys\<close> are the keys in that order.

  \<^verbatim>\<open>record.get(key)\<close> looks the key up in the driver's field table. The driver builds that
  table by the assignments \<^verbatim>\<open>lookup[name] = index\<close> to an empty object, one per column in
  order: a later column of the same name replaces an earlier one, and a column named
  \<^verbatim>\<open>__proto__\<close> gets no entry (the assignment runs the prototype's setter, which ignores a
  number). For a key with an entry, \<^verbatim>\<open>get\<close> returns the field. For a key without one it
  throws, unless the table inherits a property of that name from \<^verbatim>\<open>Object.prototype\<close>:
  then that property is taken for the index, both range checks compare it with a number
  and find nothing wrong, and \<^verbatim>\<open>get\<close> returns \<^verbatim>\<open>this._fields[index]\<close>, which is undefined.
\<close>

type_synonym drecord = "(string \<times> jsvalue) list"

definition record_keys :: "drecord \<Rightarrow> string list" where
  "record_keys r = map fst r"

definition Object_prototype_names :: "string list" where
  "Object_prototype_names =
     [''constructor'', ''__defineGetter__'', ''__defineSetter__'', ''hasOwnProperty'',
      ''__lookupGetter__'', ''__lookupSetter__'', ''isPrototypeOf'', ''propertyIsEnumerable'',
      ''toString'', ''valueOf'', ''__proto__'', ''toLocaleString'']"

definition fieldLookup :: "drecord \<Rightarrow> string \<Rightarrow> jsvalue option" where
  "fieldLookup r key = (if key = ''__proto__'' then None else map_of (rev r) key)"

definition record_get :: "drecord \<Rightarrow> string \<Rightarrow> js_error + jsvalue" where
  "record_get r key =
     (case fieldLookup r key of
        Some v \<Rightarrow> Inr v
      | None \<Rightarrow>
          if key \<in> set Object_prototype_names then Inr Undefined
          else Inl (Neo4jError (''This record has no field with key '' @ key)))"

text \<open>
  The argument \<^verbatim>\<open>data\<close> is declared as an array of Records; the declaration is not
  checked when the program runs, so \<^verbatim>\<open>data\<close> is either such an array or any other
  value.
\<close>

datatype data_arg = Records "drecord list" | Value jsvalue

text \<open>\<^verbatim>\<open>xs.map(f)\<close> where \<open>f\<close> may throw: the first throw ends the whole call.\<close>

fun map_throwing :: "('a \<Rightarrow> js_error + 'b) \<Rightarrow> 'a list \<Rightarrow> js_error + 'b list" where
  "map_throwing f [] = Inr []"
| "map_throwing f (x # xs) =
     (case f x of
        Inl e \<Rightarrow> Inl e
      | Inr y \<Rightarrow> (case map_throwing f xs of Inl e \<Rightarrow> Inl e | Inr ys \<Rightarrow> Inr (y # ys)))"

text \<open>
  The body of \<^verbatim>\<open>record.keys.forEach\<close>: \<^verbatim>\<open>obj[key] = this.convertValues(record.get(key))\<close>.
\<close>

fun forEach_key ::
  "drecord \<Rightarrow> string list \<Rightarrow> (string \<times> jsvalue) list \<Rightarrow> js_error + (string \<times> jsvalue) list"
where
  "forEach_key r [] obj = Inr obj"
| "forEach_key r (key # ks) obj =
     (case record_get r key of
        Inl e \<Rightarrow> Inl e
      | Inr v \<Rightarrow> forEach_key r ks (obj_assign obj key (convertValues v)))"

definition record_to_obj :: "drecord \<Rightarrow> js_error + jsvalue" where
  "record_to_obj r =
     (case forEach_key r (record_keys r) [] of Inl e \<Rightarrow> Inl e | Inr obj \<Rightarrow> Inr (Obj obj))"

text \<open>
  The same callback on an array element that is not a Record. No value of \<open>jsvalue\<close> is
  a function, so \<^verbatim>\<open>record.get\<close> cannot be called; and \<^verbatim>\<open>record.keys.forEach\<close> exists only
  when the element is an object whose own property \<^verbatim>\<open>keys\<close> is an array. The callback
  therefore returns the empty object when that array is empty and throws a TypeError
  in every other case.
\<close>

definition value_to_obj :: "jsvalue \<Rightarrow> js_error + jsvalue" where
  "value_to_obj v =
     (case v of
        Obj kvs \<Rightarrow> (case obj_get kvs ''keys'' of Some (Arr []) \<Rightarrow> Inr (Obj []) | _ \<Rightarrow> Inl TypeError)
      | _ \<Rightarrow> Inl TypeError)"

text \<open>
  \<^verbatim>\<open>extractRecords\<close>: \<^verbatim>\<open>if (!data) return []\<close>, then
  \<^verbatim>\<open>if (!Array.isArray(data)) return data\<close>, then \<^verbatim>\<open>data.map(...)\<close>. An array is truthy,
  so an array of Records goes straight to the map.
\<close>

fun extractRecords :: "data_arg \<Rightarrow> js_error + jsvalue" where
  "extractRecords (Value v) =
     (if \<not> truthy v then Inr (Arr [])
      else if \<not> isArray v then Inr v
      else (case map_throwing value_to_obj (elems v) of
              Inl e \<Rightarrow> Inl e
            | Inr objs \<Rightarrow> Inr (Arr objs)))"
| "extractRecords (Records rs) =
     (case map_throwing record_to_obj rs of
        Inl e \<Rightarrow> Inl e
      | Inr objs \<Rightarrow> Inr (Arr objs))"

text \<open>
  What the normalizer is to remove, and what it is to leave. \<open>driver_value\<close> is the value
  grammar of a raw result: null, the plain scalars, driver integers, temporal values,
  points, nodes, and arrays and plain objects of these. \<open>plain\<close> is a value with no
  instance of a driver class anywhere in it: null, a number, a string, a boolean, or an
  array or object of such values.
\<close>

fun driver_value :: "jsvalue \<Rightarrow> bool" where
  "driver_value Null = True"
| "driver_value Undefined = False"
| "driver_value (Bool b) = True"
| "driver_value (Num r) = True"
| "driver_value NaN = True"
| "driver_value (Str s) = True"
| "driver_value (Integer i) = True"
| "driver_value (Temporal k s) = True"
| "driver_value (Point c a b h s) = True"
| "driver_value (Node i ls ps) = list_all (\<lambda>(key, v). driver_value v) ps"
| "driver_value (Arr vs) = list_all driver_value vs"
| "driver_value (Obj kvs) = list_all (\<lambda>(key, v). driver_value v) kvs"

fun plain :: "jsvalue \<Rightarrow> bool" where
  "plain Null = True"
| "plain (Bool b) = True"
| "plain (Num r) = True"
| "plain NaN = True"
| "plain (Str s) = True"
| "plain (Arr vs) = list_all plain vs"
| "plain (Obj kvs) = list_all (\<lambda>(key, v). plain v) kvs"
| "plain _ = False"


subsection \<open>Properties of the property-list operations\<close>

lemma obj_set_keys: "fst ` set (obj_set kvs k v) = insert k (fst ` set kvs)"
  by (induction kvs) (force split: if_splits)+

lemma obj_set_distinct: "distinct (map fst kvs) \<Longrightarrow> distinct (map fst (obj_set kvs k v))"
  by (induction kvs) (auto simp: obj_set_keys)

lemma obj_set_values: "snd ` set (obj_set kvs k v) \<subseteq> insert v (snd ` set kvs)"
  by (induction kvs) (force split: if_splits)+

lemma obj_get_set: "obj_get (obj_set kvs k v) k' = (if k' = k then Some v else obj_get kvs k')"
  by (induction kvs) (auto simp: obj_get_def)

lemma map_throwing_Inr:
  assumes "\<And>x. x \<in> set xs \<Longrightarrow> f x = Inr (g x)"
  shows "map_throwing f xs = Inr (map g xs)"
  using assms by (induction xs) auto

subsection \<open>What \<^verbatim>\<open>extractRecords\<close> builds for a Record\<close>

text \<open>
  Two auxiliary notions for the proofs: the field that \<^verbatim>\<open>record.get(key)\<close> returns for
  a key of the Record, and the object that the loop over the keys builds.
\<close>

definition field_of :: "drecord \<Rightarrow> string \<Rightarrow> jsvalue" where
  "field_of r key = (case fieldLookup r key of Some v \<Rightarrow> v | None \<Rightarrow> Undefined)"

definition built_obj ::
  "drecord \<Rightarrow> string list \<Rightarrow> (string \<times> jsvalue) list \<Rightarrow> (string \<times> jsvalue) list" where
  "built_obj r ks obj = fold (\<lambda>key obj. obj_assign obj key (convertValues (field_of r key))) ks obj"

lemma obj_assign_fresh:
  assumes "''__proto__'' \<notin> fst ` set obj"
  shows "obj_assign obj k v = (if k = ''__proto__'' then obj else obj_set obj k v)"
    and "''__proto__'' \<notin> fst ` set (obj_assign obj k v)"
  using assms by (auto simp: obj_assign_def obj_get_def map_of_eq_None_iff obj_set_keys)

lemma record_get_own_key:
  assumes "key \<in> set (record_keys r)"
  shows "record_get r key = Inr (field_of r key)"
    and "key \<noteq> ''__proto__'' \<Longrightarrow> field_of r key \<in> snd ` set r"
proof -
  show "record_get r key = Inr (field_of r key)"
  proof (cases "key = ''__proto__''")
    case True
    then show ?thesis
      by (simp add: record_get_def field_of_def fieldLookup_def Object_prototype_names_def)
  next
    case False
    from assms have "key \<in> fst ` set (rev r)"
      by (simp add: record_keys_def)
    then obtain v where "map_of (rev r) key = Some v"
      by (metis map_of_eq_None_iff not_Some_eq)
    with False show ?thesis
      by (simp add: record_get_def field_of_def fieldLookup_def)
  qed
  show "field_of r key \<in> snd ` set r" if "key \<noteq> ''__proto__''"
  proof -
    from assms have "key \<in> fst ` set (rev r)"
      by (simp add: record_keys_def)
    then obtain v where v: "map_of (rev r) key = Some v"
      by (metis map_of_eq_None_iff not_Some_eq)
    then have "(key, v) \<in> set r"
      using map_of_SomeD by fastforce
    then have "v \<in> snd ` set r"
      by force
    with v that show ?thesis
      by (simp add: field_of_def fieldLookup_def)
  qed
qed

lemma forEach_key_eq:
  "set ks \<subseteq> set (record_keys r) \<Longrightarrow> forEach_key r ks obj = Inr (built_obj r ks obj)"
  by (induction ks arbitrary: obj) (simp_all add: built_obj_def record_get_own_key(1))

lemma built_obj_Cons:
  "built_obj r (key # ks) obj = built_obj r ks (obj_assign obj key (convertValues (field_of r key)))"
  by (simp add: built_obj_def)

lemma built_obj_keys:
  "''__proto__'' \<notin> fst ` set obj \<Longrightarrow>
   fst ` set (built_obj r ks obj) = fst ` set obj \<union> (set ks - {''__proto__''})"
proof (induction ks arbitrary: obj)
  case Nil
  then show ?case by (simp add: built_obj_def)
next
  case (Cons key ks)
  let ?obj = "obj_assign obj key (convertValues (field_of r key))"
  have "fst ` set (built_obj r ks ?obj) = fst ` set ?obj \<union> (set ks - {''__proto__''})"
    using Cons.prems by (intro Cons.IH obj_assign_fresh(2))
  then show ?case
    using Cons.prems
    by (auto simp: built_obj_Cons obj_assign_fresh(1) obj_set_keys)
qed

lemma built_obj_distinct:
  "distinct (map fst obj) \<Longrightarrow> distinct (map fst (built_obj r ks obj))"
  by (induction ks arbitrary: obj)
    (simp_all add: built_obj_def obj_assign_def obj_set_distinct)

lemma subset_Un_trans: "A \<subseteq> B \<union> C \<Longrightarrow> B \<subseteq> D \<union> C \<Longrightarrow> A \<subseteq> D \<union> C"
  by blast

lemma subset_insert_Un: "v \<in> C \<Longrightarrow> B \<subseteq> insert v D \<Longrightarrow> B \<subseteq> D \<union> C"
  by blast

lemma built_obj_values:
  "''__proto__'' \<notin> fst ` set obj \<Longrightarrow> set ks \<subseteq> set (record_keys r) \<Longrightarrow>
   snd ` set (built_obj r ks obj) \<subseteq> snd ` set obj \<union> convertValues ` snd ` set r"
proof (induction ks arbitrary: obj)
  case Nil
  then show ?case by (simp add: built_obj_def)
next
  case (Cons key ks)
  let ?v = "convertValues (field_of r key)"
  let ?obj = "obj_assign obj key ?v"
  have step: "snd ` set (built_obj r ks ?obj) \<subseteq> snd ` set ?obj \<union> convertValues ` snd ` set r"
    using Cons.prems by (intro Cons.IH obj_assign_fresh(2)) simp_all
  have "snd ` set ?obj \<subseteq> snd ` set obj \<union> convertValues ` snd ` set r"
  proof (cases "key = ''__proto__''")
    case True
    with Cons.prems(1) show ?thesis
      by (simp add: obj_assign_fresh(1))
  next
    case False
    have "field_of r key \<in> snd ` set r"
      using False Cons.prems(2) by (intro record_get_own_key(2)) simp_all
    then have v: "?v \<in> convertValues ` snd ` set r"
      by (rule imageI)
    have eq: "?obj = obj_set obj key ?v"
      using False Cons.prems(1) by (simp add: obj_assign_fresh(1))
    have "snd ` set (obj_set obj key ?v) \<subseteq> insert ?v (snd ` set obj)"
      by (rule obj_set_values)
    with v show ?thesis
      unfolding eq by (rule subset_insert_Un)
  qed
  with step have "snd ` set (built_obj r ks ?obj) \<subseteq> snd ` set obj \<union> convertValues ` snd ` set r"
    by (rule subset_Un_trans)
  then show ?case
    by (simp only: built_obj_Cons)
qed

lemma built_obj_get:
  "''__proto__'' \<notin> fst ` set obj \<Longrightarrow>
   obj_get (built_obj r ks obj) key =
     (if key \<in> set ks \<and> key \<noteq> ''__proto__'' then Some (convertValues (field_of r key))
      else obj_get obj key)"
proof (induction ks arbitrary: obj)
  case Nil
  then show ?case by (simp add: built_obj_def)
next
  case (Cons k ks)
  let ?obj = "obj_assign obj k (convertValues (field_of r k))"
  have "obj_get (built_obj r ks ?obj) key =
     (if key \<in> set ks \<and> key \<noteq> ''__proto__'' then Some (convertValues (field_of r key))
      else obj_get ?obj key)"
    using Cons.prems by (intro Cons.IH obj_assign_fresh(2))
  then show ?case
    using Cons.prems by (simp add: built_obj_Cons obj_assign_fresh(1) obj_get_set)
qed

lemma record_to_obj_eq: "record_to_obj r = Inr (Obj (built_obj r (record_keys r) []))"
  by (simp add: record_to_obj_def forEach_key_eq)

lemmas extractRecords_eval =
  record_to_obj_def record_keys_def record_get_def fieldLookup_def obj_assign_def obj_get_def

subsection \<open>Driver integers\<close>

text \<open>
  A decimal numeral: digits, with a minus sign in front of them for a negative number.
\<close>

definition decimal_numeral :: "string \<Rightarrow> bool" where
  "decimal_numeral s =
     (case s of
        c # ds \<Rightarrow> if c = CHR ''-'' then ds \<noteq> [] \<and> list_all is_digit ds else list_all is_digit s
      | [] \<Rightarrow> False)"

declare dec_nat.simps [simp del]

lemma digit_char_value: "d < 10 \<Longrightarrow> digit_value (digit_char d) = d \<and> is_digit (digit_char d)"
proof -
  assume "d < 10"
  then have "d \<in> {0, 1, 2, 3, 4, 5, 6, 7, 8, 9}"
    by auto
  then show ?thesis
    by (auto simp: digit_char_def digit_value_def is_digit_def)
qed

lemma nat_of_dec_snoc: "nat_of_dec (s @ [c]) = 10 * nat_of_dec s + digit_value c"
  by (simp add: nat_of_dec_def)

lemma nat_of_dec_dec_nat: "nat_of_dec (dec_nat n) = n"
proof (induction n rule: dec_nat.induct)
  case (1 n)
  show ?case
  proof (cases "n < 10")
    case True
    then show ?thesis
      by (simp add: dec_nat.simps [of n] nat_of_dec_def digit_char_value)
  next
    case False
    with 1 have "nat_of_dec (dec_nat (n div 10)) = n div 10"
      by simp
    with False show ?thesis
      by (simp add: dec_nat.simps [of n] nat_of_dec_snoc digit_char_value)
  qed
qed

lemma dec_nat_digits: "dec_nat n \<noteq> [] \<and> list_all is_digit (dec_nat n)"
proof (induction n rule: dec_nat.induct)
  case (1 n)
  show ?case
  proof (cases "n < 10")
    case True
    then show ?thesis
      by (simp add: dec_nat.simps [of n] digit_char_value)
  next
    case False
    with 1 show ?thesis
      by (simp add: dec_nat.simps [of n] digit_char_value)
  qed
qed

lemma is_digit_not_minus: "is_digit c \<Longrightarrow> c \<noteq> CHR ''-''"
  by (auto simp: is_digit_def)

lemma int_of_dec_dec_int: "int_of_dec (dec_int i) = i \<and> decimal_numeral (dec_int i)"
proof (cases "i < 0")
  case True
  then show ?thesis
    using dec_nat_digits [of "nat (- i)"]
    by (simp add: dec_int_def int_of_dec_def decimal_numeral_def nat_of_dec_dec_nat)
next
  case False
  obtain c ds where s: "dec_nat (nat i) = c # ds"
    using dec_nat_digits [of "nat i"] by (cases "dec_nat (nat i)") auto
  then have "is_digit c" and "list_all is_digit ds"
    using dec_nat_digits [of "nat i"] by simp_all
  moreover have "nat_of_dec (c # ds) = nat i"
    using nat_of_dec_dec_nat [of "nat i"] s by simp
  ultimately show ?thesis
    using False s is_digit_not_minus [of c]
    by (simp add: dec_int_def int_of_dec_def decimal_numeral_def)
qed

text \<open>
  Claim C4. A driver integer within the safe-integer range
  \<open>[-(2^53 - 1), 2^53 - 1]\<close> is converted to the number of the same value; a driver
  integer outside that range is converted to a string, and that string is the decimal
  numeral of the integer: reading it back gives the integer.
\<close>

theorem convertValues_Integer_exact:
  "(inSafeRange i \<longrightarrow> convertValues (Integer i) = Num (real_of_int (sint i))) \<and>
   (\<not> inSafeRange j \<longrightarrow>
      convertValues (Integer j) = Str (toString j) \<and>
      int_of_dec (toString j) = sint j \<and> decimal_numeral (toString j)) \<and>
   (inSafeRange i \<longleftrightarrow> - 9007199254740991 \<le> sint i \<and> sint i \<le> 9007199254740991)"
  by (simp add: convertValues_Integer toNumber_def toString_def int_of_dec_dec_int
      inSafeRange_def MAX_SAFE_INTEGER_def)

theorem convertValues_Integer_exact_witness:
  "inSafeRange 42 \<and> convertValues (Integer 42) = Num 42 \<and>
   \<not> inSafeRange 9007199254740992 \<and>
   convertValues (Integer 9007199254740992) = Str ''9007199254740992'' \<and>
   int_of_dec ''9007199254740992'' = 9007199254740992 \<and>
   \<not> inSafeRange (- 9007199254740992) \<and>
   convertValues (Integer (- 9007199254740992)) = Str ''-9007199254740992''"
proof -
  have a: "inSafeRange 42" "\<not> inSafeRange 9007199254740992" "\<not> inSafeRange (- 9007199254740992)"
    by (simp_all add: inSafeRange_def MAX_SAFE_INTEGER_def)
  have b: "toString 9007199254740992 = ''9007199254740992''"
    "toString (- 9007199254740992) = ''-9007199254740992''"
    by (simp_all add: toString_def dec_int_def dec_nat.simps digit_char_def)
  show ?thesis
    using a b convertValues_Integer_exact [of 42 9007199254740992]
      convertValues_Integer_exact [of 42 "- 9007199254740992"]
    by simp
qed

subsection \<open>No driver class survives\<close>

lemma convertValues_plain: "driver_value v \<Longrightarrow> plain (convertValues v)"
proof (induction v)
  case (Integer i)
  then show ?case by (simp add: convertValues_Integer)
next
  case (Node i ls ps)
  then show ?case
    by (fastforce simp: convertValues_Node list_all_iff)
next
  case (Arr vs)
  then show ?case
    by (simp add: convertValues_Arr list_all_iff)
next
  case (Obj kvs)
  then show ?case
    by (fastforce simp: convertValues_Obj list_all_iff)
qed (simp_all add: convertValues_eqs)

lemma extractRecords_Records:
  "extractRecords (Records rs) = Inr (Arr (map (\<lambda>r. Obj (built_obj r (record_keys r) [])) rs))"
  by (simp add: map_throwing_Inr [where g = "\<lambda>r. Obj (built_obj r (record_keys r) [])"]
      record_to_obj_eq)

text \<open>
  Claim C3. When the fields of the raw Records are values of the driver's grammar (null,
  plain scalars, driver integers, temporal values, points, nodes, and arrays and plain
  objects of these, nested to any depth), \<^verbatim>\<open>extractRecords\<close> returns an array in which no
  instance of a driver class is left at any depth: everything in it is null, a number, a
  string, a boolean, or an array or object of such values.
\<close>

theorem extractRecords_plain:
  assumes "\<forall>r\<in>set rs. \<forall>(key, v)\<in>set r. driver_value v"
  shows "\<exists>objs. extractRecords (Records rs) = Inr (Arr objs) \<and> plain (Arr objs)"
proof -
  have "plain (Obj (built_obj r (record_keys r) []))" if r: "r \<in> set rs" for r
  proof -
    have "snd ` set (built_obj r (record_keys r) []) \<subseteq> convertValues ` snd ` set r"
      using built_obj_values [of "[]" "record_keys r" r] by simp
    moreover have "plain (convertValues v)" if "v \<in> snd ` set r" for v
      using that r assms by (fastforce intro: convertValues_plain)
    ultimately have "plain b" if "(a, b) \<in> set (built_obj r (record_keys r) [])" for a b
      using that by force
    then show ?thesis
      by (auto simp: list_all_iff)
  qed
  then show ?thesis
    by (simp add: extractRecords_Records list_all_iff del: extractRecords.simps)
qed

theorem extractRecords_plain_witness:
  "extractRecords (Records [[(''n'', Node 1 [''Person'']
       [(''born'', Temporal Date ''1990-01-01''), (''ids'', Arr [Integer 7, Integer 9007199254740993]),
        (''home'', Point 4326 13 52 None ''Point{srid=4326, x=13.0, y=52.0}'')])]])
   = Inr (Arr [Obj [(''n'', Obj [(''born'', Str ''1990-01-01''), (''ids'', Arr [Num 7, Str ''9007199254740993'']),
        (''home'', Str ''Point{srid=4326, x=13.0, y=52.0}'')])]])
   \<and> plain (Arr [Obj [(''n'', Obj [(''born'', Str ''1990-01-01''), (''ids'', Arr [Num 7, Str ''9007199254740993'']),
        (''home'', Str ''Point{srid=4326, x=13.0, y=52.0}'')])]])"
proof -
  let ?rs = "[[(''n'', Node 1 [''Person'']
       [(''born'', Temporal Date ''1990-01-01''), (''ids'', Arr [Integer 7, Integer 9007199254740993]),
        (''home'', Point 4326 13 52 None ''Point{srid=4326, x=13.0, y=52.0}'')])]]"
  have h: "\<forall>r\<in>set ?rs. \<forall>(key, v)\<in>set r. driver_value v"
    by simp
  have e: "extractRecords (Records ?rs) = Inr (Arr [Obj [(''n'', Obj [(''born'', Str ''1990-01-01''), (''ids'', Arr [Num 7, Str ''9007199254740993'']),
        (''home'', Str ''Point{srid=4326, x=13.0, y=52.0}'')])]])"
    by (simp add: extractRecords_eval convertValues_eqs
        inSafeRange_def MAX_SAFE_INTEGER_def toNumber_def toString_def dec_int_def
        dec_nat.simps digit_char_def)
  from extractRecords_plain [OF h] e show ?thesis
    by auto
qed

subsection \<open>The three cases of \<^verbatim>\<open>extractRecords\<close>\<close>

text \<open>
  Claim C7, as the code has it. The first test is \<^verbatim>\<open>!data\<close>: every falsy input (null and
  undefined, and also \<^verbatim>\<open>false\<close>, \<^verbatim>\<open>0\<close>, \<^verbatim>\<open>NaN\<close> and the empty string) gives the empty
  array. A truthy input that is not an array is returned unchanged. An array of Records
  gives an array of the same length whose i-th element is a plain object; its keys are
  keys of the i-th Record, and every key of that Record other than \<^verbatim>\<open>__proto__\<close> is a key
  of it and holds the converted field. What becomes of a column named \<^verbatim>\<open>__proto__\<close> is
  not part of the statement.
\<close>

theorem extractRecords_cases:
  "extractRecords (Value Null) = Inr (Arr []) \<and>
   extractRecords (Value Undefined) = Inr (Arr []) \<and>
   extractRecords (Value NaN) = Inr (Arr []) \<and>
   (\<not> truthy u \<longrightarrow> extractRecords (Value u) = Inr (Arr [])) \<and>
   (truthy v \<and> \<not> isArray v \<longrightarrow> extractRecords (Value v) = Inr v) \<and>
   (\<exists>objs. extractRecords (Records rs) = Inr (Arr objs) \<and> length objs = length rs \<and>
      (\<forall>i<length rs. \<exists>kvs. objs ! i = Obj kvs \<and> distinct (map fst kvs) \<and>
          set (map fst kvs) \<subseteq> set (record_keys (rs ! i)) \<and>
          (\<forall>key\<in>set (record_keys (rs ! i)). key \<noteq> ''__proto__'' \<longrightarrow>
              (\<exists>f. record_get (rs ! i) key = Inr f \<and> obj_get kvs key = Some (convertValues f)))))"
proof -
  have 1: "extractRecords (Value Null) = Inr (Arr [])"
    and 2: "extractRecords (Value Undefined) = Inr (Arr [])"
    and n: "extractRecords (Value NaN) = Inr (Arr [])"
    and 3: "\<not> truthy u \<longrightarrow> extractRecords (Value u) = Inr (Arr [])"
    and 4: "truthy v \<and> \<not> isArray v \<longrightarrow> extractRecords (Value v) = Inr v"
    by (simp_all add: truthy_def)
  let ?objs = "map (\<lambda>r. Obj (built_obj r (record_keys r) [])) rs"
  have "\<exists>kvs. ?objs ! i = Obj kvs \<and> distinct (map fst kvs) \<and>
          set (map fst kvs) \<subseteq> set (record_keys (rs ! i)) \<and>
          (\<forall>key\<in>set (record_keys (rs ! i)). key \<noteq> ''__proto__'' \<longrightarrow>
              (\<exists>f. record_get (rs ! i) key = Inr f \<and> obj_get kvs key = Some (convertValues f)))" if "i < length rs" for i
  proof (intro exI conjI)
    show "?objs ! i = Obj (built_obj (rs ! i) (record_keys (rs ! i)) [])"
      using that by simp
    show "distinct (map fst (built_obj (rs ! i) (record_keys (rs ! i)) []))"
      by (simp add: built_obj_distinct)
    show "set (map fst (built_obj (rs ! i) (record_keys (rs ! i)) [])) \<subseteq> set (record_keys (rs ! i))"
      using built_obj_keys [of "[]" "rs ! i" "record_keys (rs ! i)"] by auto
    show "\<forall>key\<in>set (record_keys (rs ! i)). key \<noteq> ''__proto__'' \<longrightarrow>
            (\<exists>f. record_get (rs ! i) key = Inr f \<and>
              obj_get (built_obj (rs ! i) (record_keys (rs ! i)) []) key = Some (convertValues f))"
      by (simp add: built_obj_get record_get_own_key(1))
  qed
  then have 5: "\<exists>objs. extractRecords (Records rs) = Inr (Arr objs) \<and> length objs = length rs \<and>
      (\<forall>i<length rs. \<exists>kvs. objs ! i = Obj kvs \<and> distinct (map fst kvs) \<and>
          set (map fst kvs) \<subseteq> set (record_keys (rs ! i)) \<and>
          (\<forall>key\<in>set (record_keys (rs ! i)). key \<noteq> ''__proto__'' \<longrightarrow>
              (\<exists>f. record_get (rs ! i) key = Inr f \<and> obj_get kvs key = Some (convertValues f))))"
    by (intro exI [of _ ?objs] conjI) (simp_all add: extractRecords_Records del: extractRecords.simps)
  from 1 2 n 3 4 5 show ?thesis
    by (intro conjI)
qed

theorem extractRecords_cases_witness:
  "\<not> truthy (Num 0) \<and> extractRecords (Value (Num 0)) = Inr (Arr []) \<and>
   truthy (Str ''x'') \<and> \<not> isArray (Str ''x'') \<and> extractRecords (Value (Str ''x'')) = Inr (Str ''x'') \<and>
   extractRecords (Records [[(''a'', Integer 1), (''b'', Null)]])
     = Inr (Arr [Obj [(''a'', Num 1), (''b'', Null)]])"
proof -
  have h: "\<not> truthy (Num 0)" "truthy (Str ''x'')" "\<not> isArray (Str ''x'')"
    by (simp_all add: truthy_def isArray_def)
  have e: "extractRecords (Records [[(''a'', Integer 1), (''b'', Null)]])
     = Inr (Arr [Obj [(''a'', Num 1), (''b'', Null)]])"
    by (simp add: extractRecords_eval convertValues_eqs
        inSafeRange_def MAX_SAFE_INTEGER_def toNumber_def)
  from extractRecords_cases [of "Num 0" "Str ''x''" "[[(''a'', Integer 1), (''b'', Null)]]"] h e
  show ?thesis
    by blast
qed

text \<open>
  The input \<^verbatim>\<open>false\<close> is neither null nor undefined nor an array, and it is not returned
  unchanged: the result is the empty array.
\<close>

theorem extractRecords_falsy_counterexample:
  "Bool False \<noteq> Null \<and> Bool False \<noteq> Undefined \<and> \<not> isArray (Bool False) \<and>
   extractRecords (Value (Bool False)) = Inr (Arr []) \<and>
   extractRecords (Value (Bool False)) \<noteq> Inr (Bool False)"
  by (simp add: truthy_def isArray_def)

text \<open>
  A column named \<^verbatim>\<open>__proto__\<close>: \<^verbatim>\<open>record.get\<close> returns undefined for it and the assignment
  makes no property, so the object has only the other column.
\<close>

lemma extractRecords_proto_column:
  "extractRecords (Records [[(''__proto__'', Str ''x''), (''b'', Str ''y'')]])
     = Inr (Arr [Obj [(''b'', Str ''y'')]])"
  by (simp add: extractRecords_eval convertValues_eqs Object_prototype_names_def)

subsection \<open>Spatial points\<close>

text \<open>
  Claim C1 says that a point with SRID 4326 becomes \<^verbatim>\<open>{longitude: y, latitude: x}\<close>, one
  with SRID 4979 gets \<^verbatim>\<open>height: z\<close> in addition, and any other point becomes the
  converted object \<^verbatim>\<open>{x, y, z}\<close>. The branch that does this comes after the test for
  temporal values, and that test also asks \<^verbatim>\<open>isPoint(value)\<close>: every point leaves
  \<open>convertValues\<close> there, as the text of its \<^verbatim>\<open>toString()\<close>.
\<close>

theorem convertValues_Point_is_text:
  "isPoint (Point 4326 13 52 None ''Point{srid=4326, x=13.0, y=52.0}'') \<and>
   toNumber (srid (Point 4326 13 52 None ''Point{srid=4326, x=13.0, y=52.0}'')) = 4326 \<and>
   convertValues (Point 4326 13 52 None ''Point{srid=4326, x=13.0, y=52.0}'')
     = Str ''Point{srid=4326, x=13.0, y=52.0}'' \<and>
   convertValues (Point 4326 13 52 None ''Point{srid=4326, x=13.0, y=52.0}'')
     \<noteq> Obj [(''longitude'', Num 52), (''latitude'', Num 13)] \<and>
   convertValues (Point 4979 13 52 (Some 34) ''Point{srid=4979, x=13.0, y=52.0, z=34.0}'')
     = Str ''Point{srid=4979, x=13.0, y=52.0, z=34.0}'' \<and>
   convertValues (Point 7203 1 2 None ''Point{srid=7203, x=1.0, y=2.0}'')
     = Str ''Point{srid=7203, x=1.0, y=2.0}'' \<and>
   convertValues (Obj [(''x'', Num 1), (''y'', Num 2), (''z'', Undefined)])
     = Obj [(''x'', Num 1), (''y'', Num 2), (''z'', Undefined)]"
  by (simp add: convertValues_eqs isPoint_def toNumber_def)

section \<open>\<^verbatim>\<open>removeEmptyArrays\<close>\<close>

text \<open>
  Property access as \<^verbatim>\<open>removeEmptyArrays\<close> uses it. \<^verbatim>\<open>v[k]\<close> throws a TypeError when
  \<open>v\<close> is null or undefined. An object gives its own property, an array its element at
  an index (a key that is the decimal numeral of the index) or its length, a string its
  character or its length; anything that is not there reads as undefined.

  Properties inherited from a prototype, and the own properties of an instance of a
  driver class, read as undefined here. They are functions, numbers, strings, Integers
  and, for a Node, the array of its label strings and its property object.
  \<^verbatim>\<open>removeEmptyArrays\<close> asks of \<^verbatim>\<open>data[i][arrayKey]\<close> only whether it is an array whose first
  element is truthy and has null at \<^verbatim>\<open>checkKey\<close>, and of each own property only whether
  it is an array to descend into; for all of those values the answer is the one it is for
  undefined (a string has no property that is null or an array), so nothing is lost.
  The method \<^verbatim>\<open>hasOwnProperty\<close> is the exception: the loop calls
  \<^verbatim>\<open>data[i].hasOwnProperty(key)\<close>, and an object with an own property of that name has
  that property's value in place of the inherited method (\<open>shadows\<close> below).
\<close>

definition array_index :: "string \<Rightarrow> nat option" where
  "array_index k =
     (if k \<noteq> [] \<and> list_all is_digit k \<and> dec_nat (nat_of_dec k) = k then Some (nat_of_dec k)
      else None)"

definition get_prop :: "jsvalue \<Rightarrow> string \<Rightarrow> js_error + jsvalue" where
  "get_prop v k =
     (case v of
        Null \<Rightarrow> Inl TypeError
      | Undefined \<Rightarrow> Inl TypeError
      | Obj kvs \<Rightarrow> Inr (case obj_get kvs k of Some x \<Rightarrow> x | None \<Rightarrow> Undefined)
      | Arr xs \<Rightarrow>
          Inr (case array_index k of
                 Some i \<Rightarrow> if i < length xs then xs ! i else Undefined
               | None \<Rightarrow> if k = ''length'' then Num (real (length xs)) else Undefined)
      | Str s \<Rightarrow>
          Inr (case array_index k of
                 Some i \<Rightarrow> if i < length s then Str [s ! i] else Undefined
               | None \<Rightarrow> if k = ''length'' then Num (real (length s)) else Undefined)
      | _ \<Rightarrow> Inr Undefined)"

text \<open>
  \<^verbatim>\<open>v[k] = x\<close>, used only where \<^verbatim>\<open>v[k]\<close> was just read as an array: the property exists.
\<close>

definition set_prop :: "jsvalue \<Rightarrow> string \<Rightarrow> jsvalue \<Rightarrow> jsvalue" where
  "set_prop v k x =
     (case v of
        Obj kvs \<Rightarrow> Obj (obj_set kvs k x)
      | Arr xs \<Rightarrow> (case array_index k of Some i \<Rightarrow> Arr (xs[i := x]) | None \<Rightarrow> Arr xs)
      | _ \<Rightarrow> v)"

text \<open>\<^verbatim>\<open>p[0]\<close> for an array \<open>p\<close>: undefined when the array is empty.\<close>

definition first_elem :: "jsvalue \<Rightarrow> jsvalue" where
  "first_elem p = (case p of Arr (x # _) \<Rightarrow> x | _ \<Rightarrow> Undefined)"

text \<open>
  The loop \<^verbatim>\<open>for (const key in data[i])\<close> with its test
  \<^verbatim>\<open>data[i].hasOwnProperty(key) && Array.isArray(data[i][key])\<close>: \<open>f\<close> is what the body does
  with the value of each own property (of an object) or each element (of an array); the
  new value takes the old one's place. Other values have no own property that is an
  array.

  For every key that the loop gives, \<^verbatim>\<open>hasOwnProperty(key)\<close> is true when it is the method of
  \<^verbatim>\<open>Object.prototype\<close>. When the object has an own property named \<^verbatim>\<open>hasOwnProperty\<close>, the
  loop has at least that key, and the call in its first round throws a TypeError: no
  value of \<open>jsvalue\<close> is a function.
\<close>

definition shadows :: "jsvalue \<Rightarrow> bool" where
  "shadows v = (case v of Obj kvs \<Rightarrow> obj_get kvs ''hasOwnProperty'' \<noteq> None | _ \<Rightarrow> False)"

fun for_in :: "(jsvalue \<Rightarrow> js_error + jsvalue) \<Rightarrow> jsvalue \<Rightarrow> js_error + jsvalue" where
  "for_in f (Obj kvs) =
     (if shadows (Obj kvs) then Inl TypeError
      else
        (case map_throwing (\<lambda>(key, v). case f v of Inl e \<Rightarrow> Inl e | Inr v' \<Rightarrow> Inr (key, v')) kvs of
           Inl e \<Rightarrow> Inl e
         | Inr kvs' \<Rightarrow> Inr (Obj kvs')))"
| "for_in f (Arr xs) =
     (case map_throwing f xs of Inl e \<Rightarrow> Inl e | Inr xs' \<Rightarrow> Inr (Arr xs'))"
| "for_in f v = Inr v"

definition own_values :: "jsvalue \<Rightarrow> jsvalue list" where
  "own_values v = (case v of Obj kvs \<Rightarrow> map snd kvs | Arr xs \<Rightarrow> xs | _ \<Rightarrow> [])"

lemma map_throwing_cong [fundef_cong]:
  "xs = ys \<Longrightarrow> (\<And>x. x \<in> set ys \<Longrightarrow> f x = g x) \<Longrightarrow> map_throwing f xs = map_throwing g ys"
  by (induction ys arbitrary: xs) (auto split: sum.splits)

lemma for_in_cong [fundef_cong]:
  "v = w \<Longrightarrow> (\<And>x. x \<in> set (own_values w) \<Longrightarrow> f x = g x) \<Longrightarrow> for_in f v = for_in g w"
proof (cases w)
  case (Obj kvs)
  assume "v = w" and eq: "\<And>x. x \<in> set (own_values w) \<Longrightarrow> f x = g x"
  have "map_throwing (\<lambda>(key, v). case f v of Inl e \<Rightarrow> Inl e | Inr v' \<Rightarrow> Inr (key, v')) kvs
      = map_throwing (\<lambda>(key, v). case g v of Inl e \<Rightarrow> Inl e | Inr v' \<Rightarrow> Inr (key, v')) kvs"
    using eq Obj by (intro map_throwing_cong) (force simp: own_values_def)+
  with \<open>v = w\<close> Obj show ?thesis by simp
next
  case (Arr xs)
  assume "v = w" and eq: "\<And>x. x \<in> set (own_values w) \<Longrightarrow> f x = g x"
  have "map_throwing f xs = map_throwing g xs"
    using eq Arr by (intro map_throwing_cong) (simp_all add: own_values_def)
  with \<open>v = w\<close> Arr show ?thesis by simp
qed simp_all

lemma own_values_set_prop: "set (own_values (set_prop d k x)) \<subseteq> insert x (set (own_values d))"
proof (cases d)
  case (Obj kvs)
  then show ?thesis
    using obj_set_values [of kvs k x] by (simp add: own_values_def set_prop_def)
next
  case (Arr xs)
  then show ?thesis
    using set_update_subset_insert [of xs _ x]
    by (auto simp: own_values_def set_prop_def split: option.splits)
qed (simp_all add: own_values_def set_prop_def)

lemma own_values_size: "x \<in> set (own_values d) \<Longrightarrow> size x < size d"
  by (cases d) (auto simp: own_values_def dest: size_elems size_entries)

lemma elems_size: "isArray v \<Longrightarrow> size_list size (elems v) < size v"
  by (cases v) (simp_all add: isArray_def)

lemma removeEmptyArrays_decreases:
  assumes "d \<in> set data" and "d' = d \<or> d' = set_prop d k (Arr [])"
    and "v \<in> set (own_values d')" and "isArray v"
  shows "size_list size (elems v) < size_list size data"
proof -
  have d: "size d < size_list size data"
    using assms(1) by (induction data) auto
  from assms(2,3) own_values_set_prop [of d k "Arr []"]
  have "v = Arr [] \<or> v \<in> set (own_values d)"
    by auto
  then show ?thesis
  proof
    assume "v = Arr []"
    with d show ?thesis by simp
  next
    assume "v \<in> set (own_values d)"
    then have "size v < size d"
      by (rule own_values_size)
    with d elems_size [OF assms(4)] show ?thesis by simp
  qed
qed

text \<open>
  \<^verbatim>\<open>removeEmptyArrays\<close>. The loop over \<^verbatim>\<open>data\<close> is \<open>map_throwing\<close>; its body first reads
  \<^verbatim>\<open>data[i][arrayKey]\<close>, replaces it by \<^verbatim>\<open>[]\<close> under the two nested tests of the source,
  and then calls itself on every own property that is an array. The source changes
  \<^verbatim>\<open>data\<close> in place and returns it; the model returns the changed value.
\<close>

function removeEmptyArrays :: "jsvalue list \<Rightarrow> string \<Rightarrow> string \<Rightarrow> js_error + jsvalue list" where
  "removeEmptyArrays data arrayKey checkKey =
     map_throwing (\<lambda>record.
        case get_prop record arrayKey of
          Inl e \<Rightarrow> Inl e
        | Inr p \<Rightarrow>
            for_in (\<lambda>v. if isArray v then
                           (case removeEmptyArrays (elems v) arrayKey checkKey of
                              Inl e \<Rightarrow> Inl e
                            | Inr xs \<Rightarrow> Inr (Arr xs))
                         else Inr v)
              (if truthy p \<and> isArray p \<and> truthy (first_elem p) then
                 (if get_prop (first_elem p) checkKey = Inr Null
                  then set_prop record arrayKey (Arr []) else record)
               else record)) data"
  by pat_completeness auto
termination
proof (relation "measure (\<lambda>(data, arrayKey, checkKey). size_list size data)", goal_cases)
  case 1
  show ?case by simp
next
  case (2 data arrayKey checkKey d p v)
  then show ?case
    using removeEmptyArrays_decreases [of d data d arrayKey v]
      removeEmptyArrays_decreases [of d data "set_prop d arrayKey (Arr [])" arrayKey v]
    by (simp split: if_splits)
qed


declare removeEmptyArrays.simps [simp del]

subsection \<open>The collapse as the specification words it\<close>

text \<open>
  A second definition, written from the sentence of the specification and not from the
  code: for every record, if \<^verbatim>\<open>record[arrayKey]\<close> is a non-empty array whose first
  element's \<^verbatim>\<open>checkKey\<close> field is exactly null, replace it with an empty array; then
  apply the same collapse to every field of the record that is itself an array. A field
  is an own property of an object, or an element of an array under its index. This
  definition has no notion of failure: an element without fields, such as null, is left
  as it is.
\<close>

definition spec_field :: "jsvalue \<Rightarrow> string \<Rightarrow> jsvalue option" where
  "spec_field r k =
     (case r of
        Obj kvs \<Rightarrow> obj_get kvs k
      | Arr xs \<Rightarrow> (case array_index k of
                    Some i \<Rightarrow> if i < length xs then Some (xs ! i) else None
                  | None \<Rightarrow> None)
      | _ \<Rightarrow> None)"

definition null_collection :: "jsvalue \<Rightarrow> string \<Rightarrow> string \<Rightarrow> bool" where
  "null_collection r arrayKey checkKey =
     (case spec_field r arrayKey of
        Some (Arr (x # xs)) \<Rightarrow> spec_field x checkKey = Some Null
      | _ \<Rightarrow> False)"

fun map_fields :: "(jsvalue \<Rightarrow> jsvalue) \<Rightarrow> jsvalue \<Rightarrow> jsvalue" where
  "map_fields f (Obj kvs) = Obj (map (\<lambda>(key, v). (key, f v)) kvs)"
| "map_fields f (Arr xs) = Arr (map f xs)"
| "map_fields f v = v"

lemma map_fields_cong [fundef_cong]:
  "v = w \<Longrightarrow> (\<And>x. x \<in> set (own_values w) \<Longrightarrow> f x = g x) \<Longrightarrow> map_fields f v = map_fields g w"
  by (cases w) (force simp: own_values_def)+

function collapseNullCollections :: "jsvalue list \<Rightarrow> string \<Rightarrow> string \<Rightarrow> jsvalue list" where
  "collapseNullCollections records arrayKey checkKey =
     map (\<lambda>record.
        map_fields (\<lambda>v. if isArray v then Arr (collapseNullCollections (elems v) arrayKey checkKey)
                         else v)
          (if null_collection record arrayKey checkKey then set_prop record arrayKey (Arr [])
           else record)) records"
  by pat_completeness auto
termination
proof (relation "measure (\<lambda>(records, arrayKey, checkKey). size_list size records)", goal_cases)
  case 1
  show ?case by simp
next
  case (2 records arrayKey checkKey r v)
  then show ?case
    using removeEmptyArrays_decreases [of r records r arrayKey v]
      removeEmptyArrays_decreases [of r records "set_prop r arrayKey (Arr [])" arrayKey v]
    by (simp split: if_splits)
qed

declare collapseNullCollections.simps [simp del]

text \<open>
  Input lists on which the code meets nothing it cannot read a property of, and no
  object that hides \<^verbatim>\<open>hasOwnProperty\<close>: neither the list nor any array reached through
  array-valued fields holds null, undefined or such an object.
\<close>

function records_ok :: "jsvalue list \<Rightarrow> bool" where
  "records_ok data =
     list_all (\<lambda>d. d \<noteq> Null \<and> d \<noteq> Undefined \<and> \<not> shadows d \<and>
        list_all (\<lambda>v. isArray v \<longrightarrow> records_ok (elems v)) (own_values d)) data"
  by pat_completeness auto
termination
proof (relation "measure (size_list size)", goal_cases)
  case 1
  show ?case by simp
next
  case (2 data d v)
  then show ?case
    using removeEmptyArrays_decreases [of d data d "[]" v] by simp
qed

declare records_ok.simps [simp del]

subsection \<open>The code computes the collapse\<close>

text \<open>
  Two lemmas relate the code to the second definition: on the input lists of
  \<open>records_ok\<close> the code returns the collapse (\<open>removeEmptyArrays_returns\<close>), and
  whenever it returns, it returns the collapse (\<open>removeEmptyArrays_result\<close>).
\<close>

lemma removeEmptyArrays_Nil: "removeEmptyArrays [] arrayKey checkKey = Inr []"
  by (simp add: removeEmptyArrays.simps [of "[]"])

lemma removeEmptyArrays_Cons:
  "removeEmptyArrays (record # data) arrayKey checkKey =
     (case (case get_prop record arrayKey of
          Inl e \<Rightarrow> Inl e
        | Inr p \<Rightarrow>
            for_in (\<lambda>v. if isArray v then
                           (case removeEmptyArrays (elems v) arrayKey checkKey of
                              Inl e \<Rightarrow> Inl e
                            | Inr xs \<Rightarrow> Inr (Arr xs))
                         else Inr v)
              (if truthy p \<and> isArray p \<and> truthy (first_elem p) then
                 (if get_prop (first_elem p) checkKey = Inr Null
                  then set_prop record arrayKey (Arr []) else record)
               else record)) of
        Inl e \<Rightarrow> Inl e
      | Inr record' \<Rightarrow>
          (case removeEmptyArrays data arrayKey checkKey of
             Inl e \<Rightarrow> Inl e
           | Inr data' \<Rightarrow> Inr (record' # data')))"
  by (simp only: removeEmptyArrays.simps [of "record # data"] map_throwing.simps
      removeEmptyArrays.simps [of data, symmetric])

lemma collapseNullCollections_Nil: "collapseNullCollections [] arrayKey checkKey = []"
  by (simp add: collapseNullCollections.simps [of "[]"])

lemma collapseNullCollections_Cons:
  "collapseNullCollections (record # records) arrayKey checkKey =
     map_fields (\<lambda>v. if isArray v then Arr (collapseNullCollections (elems v) arrayKey checkKey)
                      else v)
       (if null_collection record arrayKey checkKey then set_prop record arrayKey (Arr [])
        else record) # collapseNullCollections records arrayKey checkKey"
  by (simp only: collapseNullCollections.simps [of "record # records"] list.map
      collapseNullCollections.simps [of records, symmetric])

lemma records_ok_Nil: "records_ok []"
  by (simp add: records_ok.simps [of "[]"])

lemma records_ok_Cons:
  "records_ok (d # data) \<longleftrightarrow>
     d \<noteq> Null \<and> d \<noteq> Undefined \<and> \<not> shadows d \<and>
     list_all (\<lambda>v. isArray v \<longrightarrow> records_ok (elems v)) (own_values d) \<and> records_ok data"
  by (simp add: records_ok.simps [of "d # data"] records_ok.simps [of data])

text \<open>The test of the code and the condition of the specification agree.\<close>

lemma get_prop_Null_iff:
  "truthy x \<and> get_prop x k = Inr Null \<longleftrightarrow> spec_field x k = Some Null"
  by (cases x)
    (auto simp: get_prop_def spec_field_def truthy_def split: option.splits if_splits)

lemma get_prop_array:
  "get_prop d k = Inr p \<Longrightarrow> isArray p \<Longrightarrow> spec_field d k = Some p"
  by (cases d)
    (auto simp: get_prop_def spec_field_def isArray_def split: option.splits if_splits)

lemma spec_field_get_prop: "spec_field d k = Some p \<Longrightarrow> get_prop d k = Inr p"
  by (cases d) (auto simp: get_prop_def spec_field_def split: option.splits if_splits)

lemma collapse_test:
  assumes "get_prop d arrayKey = Inr p"
  shows "truthy p \<and> isArray p \<and> truthy (first_elem p) \<and>
           get_prop (first_elem p) checkKey = Inr Null
         \<longleftrightarrow> null_collection d arrayKey checkKey"
proof
  assume l: "truthy p \<and> isArray p \<and> truthy (first_elem p) \<and>
           get_prop (first_elem p) checkKey = Inr Null"
  then obtain xs where p: "p = Arr xs"
    by (cases p) (auto simp: isArray_def)
  with l obtain x xs' where xs: "xs = x # xs'"
    by (cases xs) (auto simp: first_elem_def truthy_def)
  from l p xs have "spec_field x checkKey = Some Null"
    using get_prop_Null_iff [of x checkKey] by (simp add: first_elem_def)
  moreover have "spec_field d arrayKey = Some (Arr (x # xs'))"
    using get_prop_array [OF assms] l p xs by simp
  ultimately show "null_collection d arrayKey checkKey"
    by (simp add: null_collection_def)
next
  assume r: "null_collection d arrayKey checkKey"
  then obtain x xs where f: "spec_field d arrayKey = Some (Arr (x # xs))"
    and n: "spec_field x checkKey = Some Null"
    by (auto simp: null_collection_def split: option.splits jsvalue.splits list.splits)
  from assms have "p = Arr (x # xs)"
    using spec_field_get_prop [OF f] by simp
  with n show "truthy p \<and> isArray p \<and> truthy (first_elem p) \<and>
           get_prop (first_elem p) checkKey = Inr Null"
    using get_prop_Null_iff [of x checkKey]
    by (simp add: first_elem_def isArray_def truthy_def)
qed

lemma map_throwing_InrD:
  assumes "map_throwing f xs = Inr ys"
    and "\<And>x y. x \<in> set xs \<Longrightarrow> f x = Inr y \<Longrightarrow> y = g x"
  shows "ys = map g xs"
  using assms by (induction xs arbitrary: ys) (auto split: sum.splits)

lemma for_in_Inr:
  assumes "\<And>v. v \<in> set (own_values d) \<Longrightarrow> f v = Inr (g v)" and "\<not> shadows d"
  shows "for_in f d = Inr (map_fields g d)"
proof (cases d)
  case (Obj kvs)
  have "map_throwing (\<lambda>(key, v). case f v of Inl e \<Rightarrow> Inl e | Inr v' \<Rightarrow> Inr (key, v')) kvs
      = Inr (map (\<lambda>(key, v). (key, g v)) kvs)"
    using assms(1) Obj by (intro map_throwing_Inr) (force simp: own_values_def)
  with Obj assms(2) show ?thesis by simp
next
  case (Arr xs)
  have "map_throwing f xs = Inr (map g xs)"
    using assms(1) Arr by (intro map_throwing_Inr) (simp add: own_values_def)
  with Arr show ?thesis by simp
qed simp_all

lemma for_in_InrD:
  assumes "for_in f d = Inr r"
    and "\<And>v y. v \<in> set (own_values d) \<Longrightarrow> f v = Inr y \<Longrightarrow> y = g v"
  shows "r = map_fields g d"
proof (cases d)
  case (Obj kvs)
  with assms(1) obtain kvs' where
    m: "map_throwing (\<lambda>(key, v). case f v of Inl e \<Rightarrow> Inl e | Inr v' \<Rightarrow> Inr (key, v')) kvs = Inr kvs'"
    and r: "r = Obj kvs'"
    by (auto split: sum.splits if_splits)
  have "kvs' = map (\<lambda>(key, v). (key, g v)) kvs"
    using m
  proof (rule map_throwing_InrD)
    fix x y
    assume "x \<in> set kvs"
      and "(case x of (key, v) \<Rightarrow> case f v of Inl e \<Rightarrow> Inl e | Inr v' \<Rightarrow> Inr (key, v')) = Inr y"
    moreover obtain key v where x: "x = (key, v)"
      by (cases x)
    ultimately have "v \<in> set (own_values d)" and "\<exists>v'. f v = Inr v' \<and> y = (key, v')"
      using Obj by (force simp: own_values_def split: sum.splits)+
    then show "y = (case x of (key, v) \<Rightarrow> (key, g v))"
      using assms(2) [of v] x by auto
  qed
  with r Obj show ?thesis by simp
next
  case (Arr xs)
  with assms(1) obtain xs' where m: "map_throwing f xs = Inr xs'" and r: "r = Arr xs'"
    by (auto split: sum.splits)
  have "xs' = map g xs"
    using m assms(2) Arr by (intro map_throwing_InrD [of f xs xs' g]) (simp_all add: own_values_def)
  with r Arr show ?thesis by simp
qed (use assms(1) in auto)

lemma get_prop_defined: "d \<noteq> Null \<Longrightarrow> d \<noteq> Undefined \<Longrightarrow> \<exists>p. get_prop d k = Inr p"
  by (cases d) (simp_all add: get_prop_def)

lemma records_ok_elem:
  assumes "records_ok data" and "d \<in> set data"
  shows "d \<noteq> Null" and "d \<noteq> Undefined"
    and "\<And>v. v \<in> set (own_values d) \<Longrightarrow> isArray v \<Longrightarrow> records_ok (elems v)"
    and "\<not> shadows d"
  using assms by (simp_all add: records_ok.simps [of data] list_all_iff)

lemma shadows_set_prop: "spec_field d k \<noteq> None \<Longrightarrow> shadows (set_prop d k x) = shadows d"
  by (cases d)
    (auto simp: shadows_def set_prop_def spec_field_def obj_get_set split: option.splits)

lemma null_collection_field: "null_collection d k c \<Longrightarrow> spec_field d k \<noteq> None"
  by (auto simp: null_collection_def split: option.splits)

lemma records_ok_after_collapse:
  assumes "records_ok data" and "d \<in> set data"
    and "d' = d \<or> d' = set_prop d k (Arr [])"
    and "v \<in> set (own_values d')" and "isArray v"
  shows "records_ok (elems v)"
proof -
  from assms(3,4) own_values_set_prop [of d k "Arr []"]
  have "v = Arr [] \<or> v \<in> set (own_values d)"
    by auto
  then show ?thesis
    using records_ok_elem(3) [OF assms(1,2)] assms(5) by (auto simp: records_ok_Nil)
qed

lemma removeEmptyArrays_returns:
  "records_ok data \<Longrightarrow>
   removeEmptyArrays data arrayKey checkKey = Inr (collapseNullCollections data arrayKey checkKey)"
proof (induction data arrayKey checkKey rule: removeEmptyArrays.induct)
  case (1 data arrayKey checkKey)
  let ?f = "\<lambda>v. if isArray v then
                   (case removeEmptyArrays (elems v) arrayKey checkKey of
                      Inl e \<Rightarrow> Inl e
                    | Inr xs \<Rightarrow> Inr (Arr xs))
                 else Inr v"
  let ?g = "\<lambda>v. if isArray v then Arr (collapseNullCollections (elems v) arrayKey checkKey) else v"
  let ?code = "\<lambda>record.
        case get_prop record arrayKey of
          Inl e \<Rightarrow> Inl e
        | Inr p \<Rightarrow>
            for_in ?f
              (if truthy p \<and> isArray p \<and> truthy (first_elem p) then
                 (if get_prop (first_elem p) checkKey = Inr Null
                  then set_prop record arrayKey (Arr []) else record)
               else record)"
  let ?spec = "\<lambda>record.
        map_fields ?g
          (if null_collection record arrayKey checkKey then set_prop record arrayKey (Arr [])
           else record)"
  have "?code d = Inr (?spec d)" if d: "d \<in> set data" for d
  proof -
    from records_ok_elem(1,2) [OF "1.prems" d] obtain p where p: "get_prop d arrayKey = Inr p"
      using get_prop_defined by blast
    let ?d' = "if truthy p \<and> isArray p \<and> truthy (first_elem p) then
                 (if get_prop (first_elem p) checkKey = Inr Null
                  then set_prop d arrayKey (Arr []) else d)
               else d"
    have d': "?d' = (if null_collection d arrayKey checkKey then set_prop d arrayKey (Arr []) else d)"
      using collapse_test [OF p, of checkKey] by auto
    have "?f v = Inr (?g v)" if v: "v \<in> set (own_values ?d')" for v
    proof (cases "isArray v")
      case True
      have "?d' = d \<or> ?d' = set_prop d arrayKey (Arr [])"
        by simp
      from records_ok_after_collapse [OF "1.prems" d this v True]
      have "removeEmptyArrays (elems v) arrayKey checkKey
          = Inr (collapseNullCollections (elems v) arrayKey checkKey)"
        by (rule "1.IH" [OF d p v True])
      with True show ?thesis by simp
    next
      case False
      then show ?thesis by simp
    qed
    moreover have "\<not> shadows ?d'"
      unfolding d' using records_ok_elem(4) [OF "1.prems" d]
      by (simp add: shadows_set_prop null_collection_field)
    ultimately have "for_in ?f ?d' = Inr (map_fields ?g ?d')"
      by (rule for_in_Inr)
    with p d' show ?thesis by simp
  qed
  then have "map_throwing ?code data = Inr (map ?spec data)"
    by (rule map_throwing_Inr)
  then show ?case
    by (simp only: removeEmptyArrays.simps [of data] collapseNullCollections.simps [of data])
qed

lemma removeEmptyArrays_result:
  "removeEmptyArrays data arrayKey checkKey = Inr r \<Longrightarrow>
   r = collapseNullCollections data arrayKey checkKey"
proof (induction data arrayKey checkKey arbitrary: r rule: removeEmptyArrays.induct)
  case (1 data arrayKey checkKey)
  let ?f = "\<lambda>v. if isArray v then
                   (case removeEmptyArrays (elems v) arrayKey checkKey of
                      Inl e \<Rightarrow> Inl e
                    | Inr xs \<Rightarrow> Inr (Arr xs))
                 else Inr v"
  let ?g = "\<lambda>v. if isArray v then Arr (collapseNullCollections (elems v) arrayKey checkKey) else v"
  let ?code = "\<lambda>record.
        case get_prop record arrayKey of
          Inl e \<Rightarrow> Inl e
        | Inr p \<Rightarrow>
            for_in ?f
              (if truthy p \<and> isArray p \<and> truthy (first_elem p) then
                 (if get_prop (first_elem p) checkKey = Inr Null
                  then set_prop record arrayKey (Arr []) else record)
               else record)"
  let ?spec = "\<lambda>record.
        map_fields ?g
          (if null_collection record arrayKey checkKey then set_prop record arrayKey (Arr [])
           else record)"
  have run: "map_throwing ?code data = Inr r"
    using "1.prems" by (simp only: removeEmptyArrays.simps [of data])
  have "y = ?spec d" if d: "d \<in> set data" and y: "?code d = Inr y" for d y
  proof -
    from y obtain p where p: "get_prop d arrayKey = Inr p"
      by (cases "get_prop d arrayKey") simp_all
    let ?d' = "if truthy p \<and> isArray p \<and> truthy (first_elem p) then
                 (if get_prop (first_elem p) checkKey = Inr Null
                  then set_prop d arrayKey (Arr []) else d)
               else d"
    have d': "?d' = (if null_collection d arrayKey checkKey then set_prop d arrayKey (Arr []) else d)"
      using collapse_test [OF p, of checkKey] by auto
    from y p have f: "for_in ?f ?d' = Inr y"
      by simp
    have "y = map_fields ?g ?d'"
      using f
    proof (rule for_in_InrD)
      fix v z
      assume v: "v \<in> set (own_values ?d')" and z: "?f v = Inr z"
      show "z = ?g v"
      proof (cases "isArray v")
        case True
        with z obtain xs where xs: "removeEmptyArrays (elems v) arrayKey checkKey = Inr xs"
          and "z = Arr xs"
          by (auto split: sum.splits)
        moreover from "1.IH" [OF d p v True xs]
        have "xs = collapseNullCollections (elems v) arrayKey checkKey" .
        ultimately show ?thesis
          using True by simp
      next
        case False
        with z show ?thesis by simp
      qed
    qed
    with d' show ?thesis by simp
  qed
  with run have "r = map ?spec data"
    by (rule map_throwing_InrD)
  then show ?case
    by (simp only: collapseNullCollections.simps [of data])
qed

lemmas removeEmptyArrays_eval =
  removeEmptyArrays_Nil removeEmptyArrays_Cons get_prop_def set_prop_def first_elem_def
  truthy_def isArray_def obj_get_def

lemmas collapseNullCollections_eval =
  collapseNullCollections_Nil collapseNullCollections_Cons null_collection_def spec_field_def
  set_prop_def isArray_def obj_get_def

text \<open>
  An object with an own property named \<^verbatim>\<open>hasOwnProperty\<close>: the call in the loop throws.
\<close>

lemma removeEmptyArrays_shadowed_hasOwnProperty:
  "removeEmptyArrays [Obj [(''hasOwnProperty'', Num 1)]] ''friends'' ''name'' = Inl TypeError"
  by (simp add: removeEmptyArrays_eval shadows_def)

text \<open>
  Claim C5 says that for every input list \<^verbatim>\<open>removeEmptyArrays\<close> returns the list in which
  \<^verbatim>\<open>record[arrayKey]\<close> has been replaced by \<^verbatim>\<open>[]\<close> exactly when it is a non-empty array
  whose first element has null at \<^verbatim>\<open>checkKey\<close>, and in which the same has then been done
  in every field that is an array. Where the code returns, that is what it returns
  (\<open>removeEmptyArrays_result\<close>), and on the two inputs of the specification it returns
  \<^verbatim>\<open>[{friends: []}]\<close> and the unchanged input. But it does not return on every input list.
  On \<^verbatim>\<open>[{name: 'Alex', tags: ['a', null]}]\<close> with the keys \<^verbatim>\<open>'friends'\<close> and \<^verbatim>\<open>'name'\<close>
  there is nothing to collapse, so the result that the claim describes is the input
  itself; the code throws a TypeError when the recursion into \<^verbatim>\<open>tags\<close> reads
  \<^verbatim>\<open>null['friends']\<close>. It is the failure of claim C10, met in another field.
\<close>

theorem removeEmptyArrays_throws_in_array_field:
  "removeEmptyArrays [Obj [(''name'', Str ''Alex''), (''tags'', Arr [Str ''a'', Null])]]
      ''friends'' ''name'' = Inl TypeError \<and>
   collapseNullCollections [Obj [(''name'', Str ''Alex''), (''tags'', Arr [Str ''a'', Null])]]
      ''friends'' ''name'' = [Obj [(''name'', Str ''Alex''), (''tags'', Arr [Str ''a'', Null])]] \<and>
   removeEmptyArrays [Obj [(''friends'', Arr [Obj [(''name'', Null), (''address'', Null)]])]]
      ''friends'' ''name'' = Inr [Obj [(''friends'', Arr [])]] \<and>
   removeEmptyArrays [Obj [(''friends'', Arr [Obj [(''name'', Str ''Bob'')]])]]
      ''friends'' ''name'' = Inr [Obj [(''friends'', Arr [Obj [(''name'', Str ''Bob'')]])]]"
  by (simp add: removeEmptyArrays_eval collapseNullCollections_eval array_index_def is_digit_def
      shadows_def)

text \<open>
  Claim C10 says that \<^verbatim>\<open>removeEmptyArrays\<close> never throws, and that an array \<^verbatim>\<open>[null]\<close> under
  \<^verbatim>\<open>arrayKey\<close> is left as it is. The test on \<^verbatim>\<open>data[i][arrayKey][0]\<close> does skip a falsy first
  element, but the loop over the properties then descends into the array \<^verbatim>\<open>[null]\<close>,
  where \<^verbatim>\<open>data[0][arrayKey]\<close> reads a property of null: a TypeError. The same happens
  when the input list itself holds null. A first element that is \<^verbatim>\<open>0\<close>, \<^verbatim>\<open>false\<close> or
  the empty string is left alone, as the claim says.
\<close>

theorem removeEmptyArrays_throws_on_null_element:
  "removeEmptyArrays [Obj [(''friends'', Arr [Null])]] ''friends'' ''name'' = Inl TypeError \<and>
   removeEmptyArrays [Null] ''friends'' ''name'' = Inl TypeError \<and>
   removeEmptyArrays [Obj [(''friends'', Arr [Num 0])]] ''friends'' ''name''
     = Inr [Obj [(''friends'', Arr [Num 0])]] \<and>
   removeEmptyArrays [Obj [(''friends'', Arr [Bool False])]] ''friends'' ''name''
     = Inr [Obj [(''friends'', Arr [Bool False])]] \<and>
   removeEmptyArrays [Obj [(''friends'', Arr [Str ''''])]] ''friends'' ''name''
     = Inr [Obj [(''friends'', Arr [Str ''''])]]"
  by (simp add: removeEmptyArrays_eval array_index_def is_digit_def shadows_def)

section \<open>The connection bootstrap: \<^verbatim>\<open>createDriver\<close>\<close>

subsection \<open>The driver options\<close>

text \<open>
  \<^verbatim>\<open>Neo4jConfig\<close> (\<^verbatim>\<open>src/interfaces/neo4j-config.interface.ts\<close>). An optional field is an
  \<open>option\<close>; the option bag is an object; the port, a number or a string in the source,
  is the text that the template string of the URL makes of it; the timeout is a number
  of milliseconds.
\<close>

datatype Neo4jScheme = neo4j | neo4j_s | neo4j_scc | bolt | bolt_s | bolt_scc

record Neo4jConfig =
  scheme :: Neo4jScheme
  host :: string
  port :: string
  username :: string
  password :: string
  database :: "string option"
  options :: "(string \<times> jsvalue) list option"
  verifyConnectionTimeout :: "nat option"

text \<open>
  \<^verbatim>\<open>Object.assign(target, source)\<close> writes every own property of the source into the target,
  in the source's order.
\<close>

definition Object_assign :: "(string \<times> 'v) list \<Rightarrow> (string \<times> 'v) list \<Rightarrow> (string \<times> 'v) list" where
  "Object_assign target source = fold (\<lambda>(key, v) obj. obj_set obj key v) source target"

text \<open>
  \<^verbatim>\<open>Object.assign({ disableLosslessIntegers: true }, config.options || {})\<close>.
\<close>

definition default_options :: "(string \<times> jsvalue) list" where
  "default_options = [(''disableLosslessIntegers'', Bool True)]"

definition caller_options :: "Neo4jConfig \<Rightarrow> (string \<times> jsvalue) list" where
  "caller_options config = (case options config of None \<Rightarrow> [] | Some opts \<Rightarrow> opts)"

definition driver_options :: "Neo4jConfig \<Rightarrow> (string \<times> jsvalue) list" where
  "driver_options config = Object_assign default_options (caller_options config)"

lemma obj_get_Cons: "obj_get ((key, v) # kvs) k = (if k = key then Some v else obj_get kvs k)"
  by (simp add: obj_get_def)

lemma obj_get_Nil: "obj_get [] k = None"
  by (simp add: obj_get_def)

lemma obj_get_None_iff: "obj_get kvs k = None \<longleftrightarrow> k \<notin> fst ` set kvs"
  by (simp add: obj_get_def map_of_eq_None_iff)

lemma obj_get_Object_assign:
  "distinct (map fst source) \<Longrightarrow>
   obj_get (Object_assign target source) k =
     (case obj_get source k of Some v \<Rightarrow> Some v | None \<Rightarrow> obj_get target k)"
proof (induction source arbitrary: target)
  case Nil
  then show ?case by (simp add: Object_assign_def obj_get_Nil)
next
  case (Cons kv source)
  obtain key v where kv: "kv = (key, v)" by (cases kv)
  with Cons.prems have none: "obj_get source key = None" and d: "distinct (map fst source)"
    by (simp_all add: obj_get_None_iff)
  have "Object_assign target (kv # source) = Object_assign (obj_set target key v) source"
    by (simp add: Object_assign_def kv)
  then show ?case
    using Cons.IH [OF d, of "obj_set target key v"] kv none
    by (simp add: obj_get_set obj_get_Cons split: option.splits)
qed


definition example_config :: Neo4jConfig where
  "example_config =
     \<lparr>scheme = neo4j, host = ''localhost'', port = ''7687'', username = ''neo4j'',
      password = ''neo'', database = None, options = None, verifyConnectionTimeout = None\<rparr>"


subsection \<open>Retrying until the timeout\<close>

text \<open>
  Time is counted in milliseconds from the call of \<^verbatim>\<open>createDriver\<close>.
  \<^item> \<^verbatim>\<open>timer(0, 5000)\<close> ticks at 0, 5000, 10000, ... The tick number \<open>k\<close> builds a driver
    from the configuration and starts \<^verbatim>\<open>driver.verifyConnectivity\<close>, which settles some
    milliseconds later: verified, or failed with an error. What the server does with
    the attempt number \<open>k\<close> is the parameter \<open>server k\<close>.
  \<^item> A failed verification stores its error in \<^verbatim>\<open>reason\<close>. The first verified one emits its
    driver and completes \<^verbatim>\<open>driver$\<close>, which ends the timer (\<^verbatim>\<open>takeUntil\<close>) and resolves the
    call.
  \<^item> \<^verbatim>\<open>timeout({ each: 60000, ... })\<close> fires when \<^verbatim>\<open>driver$\<close> has emitted nothing 60000 ms
    after the subscription, and rejects the call with the \<^verbatim>\<open>reason\<close> of that moment
    (undefined when no verification has failed yet). The 60000 is a literal of the
    source: \<^verbatim>\<open>config.verifyConnectionTimeout\<close> is read nowhere.
  Only the ticks before the timeout matter for the result. A verification that settles
  in the millisecond of the timeout counts as too late, and two that settle in the same
  millisecond are taken in the order in which they were started.
\<close>

definition scheme_text :: "Neo4jScheme \<Rightarrow> string" where
  "scheme_text s =
     (case s of neo4j \<Rightarrow> ''neo4j'' | neo4j_s \<Rightarrow> ''neo4j+s'' | neo4j_scc \<Rightarrow> ''neo4j+scc''
      | bolt \<Rightarrow> ''bolt'' | bolt_s \<Rightarrow> ''bolt+s'' | bolt_scc \<Rightarrow> ''bolt+scc'')"

record Driver =
  url :: string
  auth :: "string \<times> string"
  config_options :: "(string \<times> jsvalue) list"
  attempt :: nat

definition new_driver :: "Neo4jConfig \<Rightarrow> nat \<Rightarrow> Driver" where
  "new_driver config k =
     \<lparr>url = scheme_text (scheme config) @ ''://'' @ host config @ '':'' @ port config,
      auth = (username config, password config),
      config_options = driver_options config,
      attempt = k\<rparr>"

datatype verification = Verified nat | Failed nat js_error

definition duration :: "verification \<Rightarrow> nat" where
  "duration a = (case a of Verified d \<Rightarrow> d | Failed d e \<Rightarrow> d)"

definition period :: nat where
  "period = 5000"

definition each :: nat where
  "each = 60000"

definition settles_at :: "(nat \<Rightarrow> verification) \<Rightarrow> nat \<Rightarrow> nat" where
  "settles_at server k = period * k + duration (server k)"

text \<open>The ticks of the timer from number \<open>k\<close> on that come before the timeout.\<close>

function ticks_from :: "nat \<Rightarrow> nat list" where
  "ticks_from k = (if period * k < each then k # ticks_from (k + 1) else [])"
  by pat_completeness auto
termination
  by (relation "measure (\<lambda>k. each - period * k)") (auto simp: period_def)

declare ticks_from.simps [simp del]

text \<open>
  The verifications that settle before the timeout, each with the time at which it
  settles and the number of its tick, in the order in which they settle.
\<close>

definition settlements :: "(nat \<Rightarrow> verification) \<Rightarrow> (nat \<times> nat) list" where
  "settlements server =
     sort_key fst
       (filter (\<lambda>(t, k). t < each) (map (\<lambda>k. (settles_at server k, k)) (ticks_from 0)))"

lemma ticks_from_0: "ticks_from 0 = [0, 1, 2, 3, 4, 5, 6, 7, 8, 9, 10, 11]"
  by (simp add: ticks_from.simps period_def each_def)

datatype outcome = Resolved nat Driver | Rejected nat "js_error option"

text \<open>
  The event loop over those settlements, with the variable \<^verbatim>\<open>reason\<close>: the first verified
  attempt resolves the call with its driver; when the list is used up, the timeout
  rejects it with \<^verbatim>\<open>reason\<close>.
\<close>

fun run_settlements ::
  "Neo4jConfig \<Rightarrow> (nat \<Rightarrow> verification) \<Rightarrow> (nat \<times> nat) list \<Rightarrow> js_error option \<Rightarrow> outcome"
where
  "run_settlements config server [] reason = Rejected each reason"
| "run_settlements config server ((t, k) # rest) reason =
     (case server k of
        Verified d \<Rightarrow> Resolved t (new_driver config k)
      | Failed d e \<Rightarrow> run_settlements config server rest (Some e))"

definition createDriver :: "Neo4jConfig \<Rightarrow> (nat \<Rightarrow> verification) \<Rightarrow> outcome" where
  "createDriver config server = run_settlements config server (settlements server) None"

lemma run_settlements_timeout_unused:
  "run_settlements (config\<lparr>verifyConnectionTimeout := t\<rparr>) server evs reason
     = run_settlements config server evs reason"
  by (induction evs arbitrary: reason)
    (auto simp: new_driver_def driver_options_def caller_options_def split: verification.splits)

lemma run_settlements_all_fail:
  "\<forall>k. \<exists>d e. server k = Failed d e \<Longrightarrow> \<exists>r. run_settlements config server evs reason = Rejected each r"
proof (induction evs arbitrary: reason)
  case Nil
  then show ?case by simp
next
  case (Cons ev evs)
  obtain t k where ev: "ev = (t, k)" by (cases ev)
  from Cons.prems obtain d e where "server k = Failed d e" by blast
  with Cons ev show ?case by simp
qed

text \<open>
  A server that refuses every attempt after 100 ms; the error of attempt \<open>k\<close> carries
  the number \<open>k\<close>.
\<close>

definition refusing_server :: "nat \<Rightarrow> verification" where
  "refusing_server k = Failed 100 (Neo4jError (dec_nat k))"

lemma settlements_refusing:
  "settlements refusing_server =
     [(100, 0), (5100, 1), (10100, 2), (15100, 3), (20100, 4), (25100, 5), (30100, 6),
      (35100, 7), (40100, 8), (45100, 9), (50100, 10), (55100, 11)]"
  by (simp add: settlements_def ticks_from_0 settles_at_def duration_def refusing_server_def
      period_def each_def)

lemma createDriver_all_fail:
  assumes "\<forall>k. \<exists>d e. server k = Failed d e"
  shows "\<exists>r. createDriver config server = Rejected 60000 r"
  using run_settlements_all_fail [OF assms, of config "settlements server" None]
  by (simp add: createDriver_def each_def)

text \<open>
  Claim C2 says that with \<^verbatim>\<open>verifyConnectionTimeout\<close> set to \<open>T\<close> and every attempt
  failing, the call fails at \<open>T\<close> ms with the reason of the last attempt seen before
  that. With \<open>T = 10000\<close> and a server that refuses every attempt after 100 ms, the call
  fails at 60000 ms, with the reason of the attempt started at 55000 ms; and for every
  configuration and every server the result is the same whatever
  \<^verbatim>\<open>verifyConnectionTimeout\<close> is.
\<close>

theorem createDriver_ignores_verifyConnectionTimeout:
  "createDriver (config\<lparr>verifyConnectionTimeout := Some 10000\<rparr>) refusing_server
     = Rejected 60000 (Some (Neo4jError ''11'')) \<and>
   createDriver (config\<lparr>verifyConnectionTimeout := t\<rparr>) server = createDriver config server"
proof (intro conjI)
  show "createDriver (config\<lparr>verifyConnectionTimeout := Some 10000\<rparr>) refusing_server
     = Rejected 60000 (Some (Neo4jError ''11''))"
    by (simp add: createDriver_def settlements_refusing each_def refusing_server_def
        dec_nat.simps digit_char_def)
  show "createDriver (config\<lparr>verifyConnectionTimeout := t\<rparr>) server = createDriver config server"
    by (simp add: createDriver_def run_settlements_timeout_unused)
qed

section \<open>The HTTP error filter: \<^verbatim>\<open>Neo4jErrorFilter\<close>\<close>

text \<open>
  \<^verbatim>\<open>exception.message.includes(sub)\<close>, and \<^verbatim>\<open>exception.message.match(/`([a-z0-9]+)`/gi)\<close>:
  all matches of the pattern from left to right, each a backtick, one or more letters or
  digits, and a backtick. The run of letters and digits is as long as it can be, and no
  shorter run can match, because the character after a shorter run is a letter or digit
  and not a backtick. After a match the search goes on behind it; where nothing matches
  it goes on one character further.
\<close>

fun starts_with :: "string \<Rightarrow> string \<Rightarrow> bool" where
  "starts_with s [] = True"
| "starts_with [] (c # cs) = False"
| "starts_with (a # as) (c # cs) = (a = c \<and> starts_with as cs)"

fun str_includes :: "string \<Rightarrow> string \<Rightarrow> bool" where
  "str_includes [] sub = (sub = [])"
| "str_includes (c # cs) sub = (starts_with (c # cs) sub \<or> str_includes cs sub)"

definition backtick :: char where
  "backtick = CHR 0x60"

definition is_alnum :: "char \<Rightarrow> bool" where
  "is_alnum c =
     (let n = (of_char c :: nat)
      in (48 \<le> n \<and> n \<le> 57) \<or> (65 \<le> n \<and> n \<le> 90) \<or> (97 \<le> n \<and> n \<le> 122))"

definition match_here :: "string \<Rightarrow> (string \<times> string) option" where
  "match_here s =
     (case s of
        [] \<Rightarrow> None
      | c # cs \<Rightarrow>
          if c = backtick \<and> takeWhile is_alnum cs \<noteq> [] \<and>
             starts_with (dropWhile is_alnum cs) [backtick]
          then Some (backtick # takeWhile is_alnum cs @ [backtick], tl (dropWhile is_alnum cs))
          else None)"

lemma match_here_shorter: "match_here s = Some (m, rest) \<Longrightarrow> length rest < length s"
proof -
  assume a: "match_here s = Some (m, rest)"
  then obtain c cs where s: "s = c # cs" and rest: "rest = tl (dropWhile is_alnum cs)"
    by (cases s) (auto simp: match_here_def split: if_splits)
  have "length (dropWhile is_alnum cs) \<le> length cs"
    by (rule length_dropWhile_le)
  then have "length (tl (dropWhile is_alnum cs)) \<le> length cs"
    by simp
  with s rest show ?thesis by simp
qed

function match_all :: "string \<Rightarrow> string list" where
  "match_all s =
     (if s = [] then []
      else (case match_here s of
              Some (m, rest) \<Rightarrow> m # match_all rest
            | None \<Rightarrow> match_all (tl s)))"
  by pat_completeness auto
termination
  by (relation "measure length") (auto dest: match_here_shorter)

declare match_all.simps [simp del]

text \<open>
  The body of the response, sent with the same status. \<^verbatim>\<open>matches[1]\<close> throws a TypeError
  when \<^verbatim>\<open>match\<close> returned null (no match), and \<^verbatim>\<open>matches[1].replace\<close> throws one when there
  is only one match.
\<close>

record response =
  statusCode :: nat
  message :: "string list"
  error :: string

definition BAD_REQUEST :: nat where
  "BAD_REQUEST = 400"

definition INTERNAL_SERVER_ERROR :: nat where
  "INTERNAL_SERVER_ERROR = 500"

definition second_identifier :: "string \<Rightarrow> js_error + string" where
  "second_identifier msg =
     (case match_all msg of
        m0 # m1 # ms \<Rightarrow> Inr (filter (\<lambda>c. c \<noteq> backtick) m1)
      | _ \<Rightarrow> Inl TypeError)"

definition filter_catch :: "string \<Rightarrow> js_error + response" where
  "filter_catch msg =
     (if str_includes msg ''already exists with'' then
        (case second_identifier msg of
           Inl e \<Rightarrow> Inl e
         | Inr ident \<Rightarrow>
             Inr \<lparr>statusCode = BAD_REQUEST, message = [ident @ '' already taken''],
                  error = ''Bad Request''\<rparr>)
      else if str_includes msg ''must have the property'' then
        (case second_identifier msg of
           Inl e \<Rightarrow> Inl e
         | Inr ident \<Rightarrow>
             Inr \<lparr>statusCode = BAD_REQUEST, message = [ident @ '' should not be empty''],
                  error = ''Bad Request''\<rparr>)
      else
        Inr \<lparr>statusCode = INTERNAL_SERVER_ERROR, message = [], error = ''Internal Server Error''\<rparr>)"


lemma filter_catch_throws_iff:
  "filter_catch msg = Inl TypeError \<longleftrightarrow>
     (str_includes msg ''already exists with'' \<or> str_includes msg ''must have the property'') \<and>
     length (match_all msg) < 2"
proof -
  have "second_identifier msg = Inl TypeError \<longleftrightarrow> length (match_all msg) < 2"
    by (cases "match_all msg" rule: list.exhaust [case_names Nil Cons])
       (auto simp: second_identifier_def split: list.splits)
  moreover have "second_identifier msg \<noteq> Inl TypeError \<Longrightarrow> \<exists>i. second_identifier msg = Inr i"
    by (cases "second_identifier msg") (auto simp: second_identifier_def split: list.splits)
  ultimately show ?thesis
    by (auto simp: filter_catch_def split: sum.splits)
qed

lemma filter_catch_bad_request:
  assumes "match_all msg = m0 # m1 # ms"
  shows "str_includes msg ''already exists with'' \<Longrightarrow>
           filter_catch msg =
             Inr \<lparr>statusCode = 400, message = [filter (\<lambda>c. c \<noteq> backtick) m1 @ '' already taken''],
                  error = ''Bad Request''\<rparr>"
    and "\<not> str_includes msg ''already exists with'' \<Longrightarrow>
         str_includes msg ''must have the property'' \<Longrightarrow>
           filter_catch msg =
             Inr \<lparr>statusCode = 400,
                  message = [filter (\<lambda>c. c \<noteq> backtick) m1 @ '' should not be empty''],
                  error = ''Bad Request''\<rparr>"
  using assms by (simp_all add: filter_catch_def second_identifier_def BAD_REQUEST_def)

lemma filter_catch_other:
  "\<not> str_includes msg ''already exists with'' \<Longrightarrow>
   \<not> str_includes msg ''must have the property'' \<Longrightarrow>
   filter_catch msg = Inr \<lparr>statusCode = 500, message = [], error = ''Internal Server Error''\<rparr>"
  by (simp add: filter_catch_def INTERNAL_SERVER_ERROR_def)

lemmas filter_catch_eval =
  filter_catch_def second_identifier_def match_all.simps match_here_def backtick_def
  is_alnum_def BAD_REQUEST_def INTERNAL_SERVER_ERROR_def

text \<open>
  Claim C9 says that a driver error whose message has one of the two phrases gets a 400
  response with the identifier taken from the message. The filter takes the second
  backtick-quoted identifier made of letters and digits only, and throws a TypeError when
  the message has fewer than two of those: here the property name \<^verbatim>\<open>first_name\<close> has an
  underscore, so only \<^verbatim>\<open>`User`\<close> matches. The two messages quoted in the source get their
  400 responses, and a message with neither phrase gets status 500 with an empty message
  list.
\<close>

theorem filter_catch_throws_on_one_identifier:
  "filter_catch (''Node(12) already exists with label `User` and property `first_name` = 'Bob'' @ [CHR 0x27])
     = Inl TypeError \<and>
   filter_catch (''Node(54776) already exists with label `User` and property `email` = 'duplicate@email.com'' @ [CHR 0x27])
     = Inr \<lparr>statusCode = 400, message = [''email already taken''], error = ''Bad Request''\<rparr> \<and>
   filter_catch ''Node(54778) with label `Test` must have the property `mustExist`''
     = Inr \<lparr>statusCode = 400, message = [''mustExist should not be empty''],
            error = ''Bad Request''\<rparr> \<and>
   filter_catch ''The client is unauthorized due to authentication failure.''
     = Inr \<lparr>statusCode = 500, message = [], error = ''Internal Server Error''\<rparr>"
  by (simp add: filter_catch_eval)

section \<open>Several statements in one transaction: \<^verbatim>\<open>multipleStatementsRaw\<close>\<close>

text \<open>
  The driver's session and transaction are not part of this repository; they are
  modelled by what the method asks of them. The database keeps the statements that
  have been committed, the statements that the open transaction has run and not yet
  committed, and the list of the calls made on the session and the transaction. How
  the server answers is a parameter: \<open>run_result\<close> says whether a statement, run after
  the given earlier statements of the transaction, returns its result or raises; and
  \<^verbatim>\<open>commit\<close>, \<^verbatim>\<open>rollback\<close> and \<^verbatim>\<open>close\<close> may each raise too.
  \<^item> \<^verbatim>\<open>run\<close> of a statement that raises leaves nothing of that statement behind.
  \<^item> \<^verbatim>\<open>commit\<close> makes the statements of the transaction permanent, all at once; a commit
    that raises keeps none of them.
  \<^item> \<^verbatim>\<open>rollback\<close>, and \<^verbatim>\<open>close\<close> of the session, drop what is not committed.
  \<^verbatim>\<open>getWriteSession()\<close> and \<^verbatim>\<open>session.beginTransaction()\<close> are not awaited and stand before
  the \<^verbatim>\<open>try\<close>; they are taken not to throw.
\<close>

type_synonym statement = "string \<times> (string \<times> jsvalue) list"

type_synonym QueryResult = "drecord list"

datatype call = BeginTransaction | Run statement | Commit | Rollback | Close

record server =
  run_result :: "statement list \<Rightarrow> statement \<Rightarrow> js_error + QueryResult"
  commit_error :: "js_error option"
  rollback_error :: "js_error option"
  close_error :: "js_error option"

record database =
  committed :: "statement list"
  pending :: "statement list"
  calls :: "call list"

definition beginTransaction :: "database \<Rightarrow> database" where
  "beginTransaction db = db\<lparr>pending := [], calls := calls db @ [BeginTransaction]\<rparr>"

definition tx_run :: "server \<Rightarrow> statement \<Rightarrow> database \<Rightarrow> (js_error + QueryResult) \<times> database" where
  "tx_run srv s db =
     (case run_result srv (pending db) s of
        Inl e \<Rightarrow> (Inl e, db\<lparr>calls := calls db @ [Run s]\<rparr>)
      | Inr result \<Rightarrow> (Inr result, db\<lparr>pending := pending db @ [s], calls := calls db @ [Run s]\<rparr>))"

definition tx_commit :: "server \<Rightarrow> database \<Rightarrow> (js_error + unit) \<times> database" where
  "tx_commit srv db =
     (case commit_error srv of
        Some e \<Rightarrow> (Inl e, db\<lparr>pending := [], calls := calls db @ [Commit]\<rparr>)
      | None \<Rightarrow>
          (Inr (), db\<lparr>committed := committed db @ pending db, pending := [],
                        calls := calls db @ [Commit]\<rparr>))"

definition tx_rollback :: "server \<Rightarrow> database \<Rightarrow> (js_error + unit) \<times> database" where
  "tx_rollback srv db =
     (let db' = db\<lparr>pending := [], calls := calls db @ [Rollback]\<rparr>
      in case rollback_error srv of Some e \<Rightarrow> (Inl e, db') | None \<Rightarrow> (Inr (), db'))"

definition session_close :: "server \<Rightarrow> database \<Rightarrow> (js_error + unit) \<times> database" where
  "session_close srv db =
     (let db' = db\<lparr>pending := [], calls := calls db @ [Close]\<rparr>
      in case close_error srv of Some e \<Rightarrow> (Inl e, db') | None \<Rightarrow> (Inr (), db'))"

text \<open>
  The loop \<^verbatim>\<open>for (const s of statements)\<close> with \<^verbatim>\<open>results.push(result)\<close>: the first
  statement that raises ends it.
\<close>

fun run_statements ::
  "server \<Rightarrow> statement list \<Rightarrow> QueryResult list \<Rightarrow> database
     \<Rightarrow> (js_error + QueryResult list) \<times> database"
where
  "run_statements srv [] results db = (Inr results, db)"
| "run_statements srv (s # statements) results db =
     (case tx_run srv s db of
        (Inl e, db') \<Rightarrow> (Inl e, db')
      | (Inr result, db') \<Rightarrow> run_statements srv statements (results @ [result]) db')"

text \<open>
  \<^verbatim>\<open>try { loop; await txc.commit(); return results }\<close>, then
  \<^verbatim>\<open>catch (e) { await txc.rollback(); throw e }\<close>, then
  \<^verbatim>\<open>finally { await session.close() }\<close>. An error raised in the \<^verbatim>\<open>catch\<close> block or in the
  \<^verbatim>\<open>finally\<close> block replaces the one that was on its way.
\<close>

definition try_block ::
  "server \<Rightarrow> statement list \<Rightarrow> database \<Rightarrow> (js_error + QueryResult list) \<times> database" where
  "try_block srv statements db =
     (case run_statements srv statements [] db of
        (Inl e, db') \<Rightarrow> (Inl e, db')
      | (Inr results, db') \<Rightarrow>
          (case tx_commit srv db' of
             (Inl e, db'') \<Rightarrow> (Inl e, db'')
           | (Inr u, db'') \<Rightarrow> (Inr results, db'')))"

definition catch_block ::
  "server \<Rightarrow> (js_error + QueryResult list) \<times> database \<Rightarrow> (js_error + QueryResult list) \<times> database"
where
  "catch_block srv r =
     (case r of
        (Inr results, db) \<Rightarrow> (Inr results, db)
      | (Inl e, db) \<Rightarrow>
          (case tx_rollback srv db of
             (Inl e', db') \<Rightarrow> (Inl e', db')
           | (Inr u, db') \<Rightarrow> (Inl e, db')))"

definition finally_block ::
  "server \<Rightarrow> (js_error + QueryResult list) \<times> database \<Rightarrow> (js_error + QueryResult list) \<times> database"
where
  "finally_block srv r =
     (case r of
        (outcome, db) \<Rightarrow>
          (case session_close srv db of
             (Inl e, db') \<Rightarrow> (Inl e, db')
           | (Inr u, db') \<Rightarrow> (outcome, db')))"

definition multipleStatementsRaw ::
  "server \<Rightarrow> statement list \<Rightarrow> database \<Rightarrow> (js_error + QueryResult list) \<times> database" where
  "multipleStatementsRaw srv statements db =
     finally_block srv (catch_block srv (try_block srv statements (beginTransaction db)))"

definition multipleStatements ::
  "server \<Rightarrow> statement list \<Rightarrow> database \<Rightarrow> (js_error + jsvalue list) \<times> database" where
  "multipleStatements srv statements db =
     (case multipleStatementsRaw srv statements db of
        (Inl e, db') \<Rightarrow> (Inl e, db')
      | (Inr results, db') \<Rightarrow>
          (map_throwing (\<lambda>result. extractRecords (Records result)) results, db'))"

text \<open>
  \<open>all_run srv p ss = Some results\<close>: every statement of \<open>ss\<close>, run in order in a
  transaction that has already run \<open>p\<close>, returns, and these are the results.
  \<open>closes\<close> counts the calls of \<^verbatim>\<open>session.close()\<close>.
\<close>

fun all_run :: "server \<Rightarrow> statement list \<Rightarrow> statement list \<Rightarrow> QueryResult list option" where
  "all_run srv p [] = Some []"
| "all_run srv p (s # ss) =
     (case run_result srv p s of
        Inl e \<Rightarrow> None
      | Inr result \<Rightarrow> map_option ((#) result) (all_run srv (p @ [s]) ss))"

definition closes :: "call list \<Rightarrow> nat" where
  "closes cs = length (filter (\<lambda>c. c = Close) cs)"

lemma run_statements_ok:
  "all_run srv (pending db) ss = Some res \<Longrightarrow>
   run_statements srv ss rs db =
     (Inr (rs @ res), db\<lparr>pending := pending db @ ss, calls := calls db @ map Run ss\<rparr>)"
proof (induction ss arbitrary: rs db res)
  case Nil
  then show ?case by simp
next
  case (Cons s ss)
  from Cons.prems obtain result res' where
    r: "run_result srv (pending db) s = Inr result" and
    rest: "all_run srv (pending db @ [s]) ss = Some res'" and res: "res = result # res'"
    by (auto split: sum.splits)
  let ?db = "db\<lparr>pending := pending db @ [s], calls := calls db @ [Run s]\<rparr>"
  have "run_statements srv ss (rs @ [result]) ?db =
     (Inr ((rs @ [result]) @ res'), ?db\<lparr>pending := pending ?db @ ss, calls := calls ?db @ map Run ss\<rparr>)"
    by (rule Cons.IH) (simp add: rest)
  with r res show ?case
    by (simp add: tx_run_def)
qed

lemma run_statements_fail:
  "all_run srv (pending db) pre = Some res \<Longrightarrow>
   run_result srv (pending db @ pre) s = Inl e \<Longrightarrow>
   run_statements srv (pre @ s # post) rs db =
     (Inl e, db\<lparr>pending := pending db @ pre, calls := calls db @ map Run pre @ [Run s]\<rparr>)"
proof (induction pre arbitrary: rs db res)
  case Nil
  then show ?case by (simp add: tx_run_def)
next
  case (Cons a pre)
  from Cons.prems(1) obtain result res' where
    r: "run_result srv (pending db) a = Inr result" and
    rest: "all_run srv (pending db @ [a]) pre = Some res'"
    by (auto split: sum.splits)
  let ?db = "db\<lparr>pending := pending db @ [a], calls := calls db @ [Run a]\<rparr>"
  have "run_statements srv (pre @ s # post) (rs @ [result]) ?db =
     (Inl e, ?db\<lparr>pending := pending ?db @ pre, calls := calls ?db @ map Run pre @ [Run s]\<rparr>)"
    using Cons.prems(2) by (intro Cons.IH [of ?db res']) (simp_all add: rest)
  with r show ?case
    by (simp add: tx_run_def)
qed

text \<open>Whatever the server does: what the statements loop can have changed.\<close>

lemma run_statements_any:
  "run_statements srv ss rs db = (out, db') \<Longrightarrow>
   committed db' = committed db \<and>
   (\<exists>stmts. calls db' = calls db @ map Run stmts) \<and>
   (\<forall>results. out = Inr results \<longrightarrow> pending db' = pending db @ ss)"
proof (induction ss arbitrary: rs db)
  case Nil
  then show ?case by auto
next
  case (Cons s ss)
  show ?case
  proof (cases "run_result srv (pending db) s")
    case (Inl e)
    with Cons.prems have "db' = db\<lparr>calls := calls db @ [Run s]\<rparr>" and "out = Inl e"
      by (simp_all add: tx_run_def)
    then show ?thesis
      by (auto intro: exI [of _ "[s]"])
  next
    case (Inr result)
    let ?db = "db\<lparr>pending := pending db @ [s], calls := calls db @ [Run s]\<rparr>"
    from Inr Cons.prems have "run_statements srv ss (rs @ [result]) ?db = (out, db')"
      by (simp add: tx_run_def)
    from Cons.IH [OF this] obtain stmts where
      a: "committed db' = committed ?db" and c: "calls db' = calls ?db @ map Run stmts" and
      p: "\<forall>results. out = Inr results \<longrightarrow> pending db' = pending ?db @ ss"
      by auto
    from a have 1: "committed db' = committed db"
      by simp
    from c have "calls db' = calls db @ map Run (s # stmts)"
      by simp
    then have 2: "\<exists>stmts. calls db' = calls db @ map Run stmts" ..
    from p have 3: "\<forall>results. out = Inr results \<longrightarrow> pending db' = pending db @ s # ss"
      by simp
    from 1 2 3 show ?thesis
      by (intro conjI)
  qed
qed

lemma closes_append: "closes (xs @ ys) = closes xs + closes ys"
  by (simp add: closes_def)

lemma closes_Run: "closes (map Run stmts) = 0"
  by (induction stmts) (simp_all add: closes_def)

lemma multipleStatementsRaw_fail:
  assumes "all_run srv [] pre = Some res" and "run_result srv pre s = Inl e"
    and "rollback_error srv = None" and "close_error srv = None"
  shows "multipleStatementsRaw srv (pre @ s # post) db =
     (Inl e, db\<lparr>pending := [],
                 calls := calls db @ BeginTransaction # map Run pre @ [Run s, Rollback, Close]\<rparr>)"
proof -
  let ?db = "beginTransaction db"
  have "run_statements srv (pre @ s # post) [] ?db =
     (Inl e, ?db\<lparr>pending := pending ?db @ pre, calls := calls ?db @ map Run pre @ [Run s]\<rparr>)"
    using assms(1,2) by (intro run_statements_fail [of srv ?db pre res]) (simp_all add: beginTransaction_def)
  then show ?thesis
    using assms(3,4)
    by (simp add: multipleStatementsRaw_def try_block_def catch_block_def finally_block_def
        tx_rollback_def session_close_def beginTransaction_def)
qed

lemma multipleStatementsRaw_ok:
  assumes "all_run srv [] ss = Some results"
    and "commit_error srv = None" and "close_error srv = None"
  shows "multipleStatementsRaw srv ss db =
     (Inr results, db\<lparr>committed := committed db @ ss, pending := [],
                       calls := calls db @ BeginTransaction # map Run ss @ [Commit, Close]\<rparr>)"
proof -
  let ?db = "beginTransaction db"
  have "run_statements srv ss [] ?db =
     (Inr ([] @ results), ?db\<lparr>pending := pending ?db @ ss, calls := calls ?db @ map Run ss\<rparr>)"
    using assms(1) by (intro run_statements_ok) (simp add: beginTransaction_def)
  then show ?thesis
    using assms(2,3)
    by (simp add: multipleStatementsRaw_def try_block_def catch_block_def finally_block_def
        tx_commit_def session_close_def beginTransaction_def)
qed

lemma multipleStatementsRaw_any:
  "pending (snd (multipleStatementsRaw srv ss db)) = [] \<and>
   closes (calls (snd (multipleStatementsRaw srv ss db))) = closes (calls db) + 1 \<and>
   last (calls (snd (multipleStatementsRaw srv ss db))) = Close \<and>
   (committed (snd (multipleStatementsRaw srv ss db)) = committed db \<or>
    committed (snd (multipleStatementsRaw srv ss db)) = committed db @ ss)"
proof -
  let ?db = "beginTransaction db"
  obtain out db1 where run: "run_statements srv ss [] ?db = (out, db1)"
    by (cases "run_statements srv ss [] ?db")
  from run_statements_any [OF run] obtain stmts where
    c: "committed db1 = committed db" and
    l: "calls db1 = calls db @ BeginTransaction # map Run stmts" and
    p: "\<forall>results. out = Inr results \<longrightarrow> pending db1 = ss"
    by (auto simp: beginTransaction_def)
  have cl: "closes (calls db1) = closes (calls db)"
    by (simp add: l closes_append closes_Run) (simp add: closes_def)
  show ?thesis
  proof (cases out)
    case (Inl e)
    with run c cl show ?thesis
      by (simp add: multipleStatementsRaw_def try_block_def catch_block_def finally_block_def
          tx_rollback_def session_close_def Let_def closes_append
          split: option.splits)
        (simp add: closes_def)
  next
    case (Inr results)
    with p have "pending db1 = ss" by simp
    with Inr run c cl show ?thesis
      by (simp add: multipleStatementsRaw_def try_block_def catch_block_def finally_block_def
          tx_commit_def tx_rollback_def session_close_def Let_def closes_append
          split: option.splits)
        (simp add: closes_def)
  qed
qed

lemma multipleStatementsRaw_rollback_raises:
  assumes "all_run srv [] pre = Some res" and "run_result srv pre s = Inl e"
    and "rollback_error srv = Some e'" and "close_error srv = None"
  shows "multipleStatementsRaw srv (pre @ s # post) db =
     (Inl e', db\<lparr>pending := [],
                  calls := calls db @ BeginTransaction # map Run pre @ [Run s, Rollback, Close]\<rparr>)"
proof -
  let ?db = "beginTransaction db"
  have "run_statements srv (pre @ s # post) [] ?db =
     (Inl e, ?db\<lparr>pending := pending ?db @ pre, calls := calls ?db @ map Run pre @ [Run s]\<rparr>)"
    using assms(1,2) by (intro run_statements_fail [of srv ?db pre res]) (simp_all add: beginTransaction_def)
  then show ?thesis
    using assms(3,4)
    by (simp add: multipleStatementsRaw_def try_block_def catch_block_def finally_block_def
        tx_rollback_def session_close_def beginTransaction_def)
qed

lemma multipleStatementsRaw_close_raises:
  assumes "close_error srv = Some e"
  shows "fst (multipleStatementsRaw srv ss db) = Inl e"
  using assms
  by (simp add: multipleStatementsRaw_def finally_block_def session_close_def split: prod.splits)

lemma multipleStatementsRaw_commit_raises:
  assumes "all_run srv [] ss = Some results" and "commit_error srv = Some e"
    and "rollback_error srv = None" and "close_error srv = None"
  shows "multipleStatementsRaw srv ss db =
     (Inl e, db\<lparr>pending := [],
                 calls := calls db @ BeginTransaction # map Run ss @ [Commit, Rollback, Close]\<rparr>)"
proof -
  let ?db = "beginTransaction db"
  have "run_statements srv ss [] ?db =
     (Inr ([] @ results), ?db\<lparr>pending := pending ?db @ ss, calls := calls ?db @ map Run ss\<rparr>)"
    using assms(1) by (intro run_statements_ok) (simp add: beginTransaction_def)
  then show ?thesis
    using assms(2,3,4)
    by (simp add: multipleStatementsRaw_def try_block_def catch_block_def finally_block_def
        tx_commit_def tx_rollback_def session_close_def beginTransaction_def)
qed


definition example_server :: server where
  "example_server =
     \<lparr>run_result = (\<lambda>p s. if fst s = ''CREATE (n:Bad)'' then Inl (Neo4jError ''boom'') else Inr []),
      commit_error = None, rollback_error = None, close_error = None\<rparr>"

definition empty_database :: database where
  "empty_database = \<lparr>committed = [], pending = [], calls = []\<rparr>"

definition rollback_failing_server :: server where
  "rollback_failing_server = example_server\<lparr>rollback_error := Some (Neo4jError ''rollback failed'')\<rparr>"

definition close_failing_server :: server where
  "close_failing_server = example_server\<lparr>close_error := Some (Neo4jError ''close failed'')\<rparr>"


text \<open>
  Not for every server. Here the second statement raises \<^verbatim>\<open>boom\<close> and \<^verbatim>\<open>rollback\<close> raises
  too: the caller gets the error of \<^verbatim>\<open>rollback\<close>, not \<^verbatim>\<open>boom\<close>. And when the statement
  raises and \<^verbatim>\<open>close\<close> raises, the caller gets the error of \<^verbatim>\<open>close\<close>.
\<close>

lemmas transaction_eval =
  multipleStatementsRaw_def try_block_def catch_block_def finally_block_def tx_run_def
  tx_commit_def tx_rollback_def session_close_def beginTransaction_def example_server_def
  rollback_failing_server_def close_failing_server_def empty_database_def


end
